theory Spec2Isabelle
  imports Complex_Main "HOL-Library.AList" "HOL-Library.Multiset"
begin

section \<open>Data model\<close>

text \<open>
  The trainer of \<^verbatim>\<open>terminal/game.py\<close> keeps one progress document, a JSON object
  with the keys \<^verbatim>\<open>xp\<close>, \<^verbatim>\<open>streak\<close>, \<^verbatim>\<open>last_played\<close>, \<^verbatim>\<open>best_speed\<close> and
  \<^verbatim>\<open>words\<close>. The value of \<^verbatim>\<open>words\<close> is a dictionary from a word key to an object
  with the keys \<^verbatim>\<open>mastery\<close>, \<^verbatim>\<open>correct\<close> and \<^verbatim>\<open>wrong\<close>. Python integers are
  unbounded, so every counter is an \<open>int\<close>. The dictionary is an association list
  in insertion order, as a Python dictionary is; a key is looked up with \<open>map_of\<close>.
  The record fields carry the names of the JSON keys; an object that the program has
  written holds all three of its keys.
\<close>

record entry =
  mastery :: int
  correct :: int
  wrong :: int

record progress =
  xp :: int
  streak :: int
  last_played :: string
  best_speed :: int
  words :: "(string \<times> entry) list"

text \<open>A vocabulary item: the German text \<^verbatim>\<open>w["de"]\<close> and the English text \<^verbatim>\<open>w["en"]\<close>.\<close>

record word =
  de :: string
  en :: string

section \<open>Progress helpers\<close>

text \<open>The structure \<^verbatim>\<open>load_progress\<close> returns when no file exists.\<close>

definition fresh_progress :: progress where
  "fresh_progress = \<lparr>xp = 0, streak = 0, last_played = [], best_speed = 0, words = []\<rparr>"

text \<open>\<^verbatim>\<open>get_word_key\<close>: the f-string \<^verbatim>\<open>f"{category}:{de_word}"\<close>.\<close>

definition get_word_key :: "string \<Rightarrow> string \<Rightarrow> string" where
  "get_word_key category de_word = category @ '':'' @ de_word"

text \<open>\<^verbatim>\<open>get_mastery\<close>: \<^verbatim>\<open>progress["words"].get(key, {}).get("mastery", 0)\<close>.\<close>

definition get_mastery :: "progress \<Rightarrow> string \<Rightarrow> string \<Rightarrow> int" where
  "get_mastery p category de_word =
     (case map_of (words p) (get_word_key category de_word) of
        None \<Rightarrow> 0
      | Some e \<Rightarrow> mastery e)"

text \<open>The default object of \<^verbatim>\<open>setdefault\<close>: \<^verbatim>\<open>{"mastery": 0, "correct": 0, "wrong": 0}\<close>.\<close>

definition new_entry :: entry where
  "new_entry = \<lparr>mastery = 0, correct = 0, wrong = 0\<rparr>"

text \<open>
  \<^verbatim>\<open>dict.setdefault(key, default)\<close>: an absent key is inserted (at the end, in insertion
  order) with the default; the stored value is returned with the dictionary.
\<close>

definition setdefault :: "(string \<times> entry) list \<Rightarrow> string \<Rightarrow> entry \<Rightarrow> (string \<times> entry) list \<times> entry" where
  "setdefault d key dflt =
     (case map_of d key of
        None \<Rightarrow> (d @ [(key, dflt)], dflt)
      | Some e \<Rightarrow> (d, e))"

text \<open>
  \<^verbatim>\<open>record_answer\<close> mutates the object stored under the key in place; the model
  writes the changed object back at its position.
\<close>

definition record_answer :: "progress \<Rightarrow> string \<Rightarrow> string \<Rightarrow> bool \<Rightarrow> progress" where
  "record_answer p category de_word is_correct =
     (let key = get_word_key category de_word;
          (d, e) = setdefault (words p) key new_entry;
          e' = (if is_correct
                then e\<lparr>correct := correct e + 1, mastery := min (mastery e + 1) 5\<rparr>
                else e\<lparr>wrong := wrong e + 1, mastery := max (mastery e - 1) 0\<rparr>)
      in p\<lparr>words := AList.update key e' d\<rparr>)"

text \<open>A sequence of calls \<^verbatim>\<open>record_answer(progress, category, de_word, correct)\<close>.\<close>

fun record_answers :: "progress \<Rightarrow> (string \<times> string \<times> bool) list \<Rightarrow> progress" where
  "record_answers p [] = p"
| "record_answers p ((category, de_word, is_correct) # calls) =
     record_answers (record_answer p category de_word is_correct) calls"

text \<open>The data model's invariant: every stored mastery value lies in \<open>[0, 5]\<close>.\<close>

definition mastery_ok :: "progress \<Rightarrow> bool" where
  "mastery_ok p = list_all (\<lambda>(k, e). 0 \<le> mastery e \<and> mastery e \<le> 5) (words p)"

text \<open>The object a key holds before a call: the stored one, or the default.\<close>

definition stored_entry :: "progress \<Rightarrow> string \<Rightarrow> entry" where
  "stored_entry p key = (case map_of (words p) key of None \<Rightarrow> new_entry | Some e \<Rightarrow> e)"

section \<open>Daily streak\<close>

text \<open>The exceptions of the Python run time that the modelled code can raise.\<close>

datatype error = ZeroDivisionError | OverflowError | ValueError

text \<open>
  A \<^verbatim>\<open>datetime.date\<close>: year 1 to 9999, month, day, in the proleptic Gregorian
  calendar of the standard library. \<^verbatim>\<open>isoformat\<close> prints it as \<^verbatim>\<open>YYYY-MM-DD\<close>;
  subtracting \<^verbatim>\<open>timedelta(days=1)\<close> from the first day the type holds raises
  \<^verbatim>\<open>OverflowError\<close>.
\<close>

record date =
  year :: nat
  month :: nat
  day :: nat

definition is_leap :: "nat \<Rightarrow> bool" where
  "is_leap y \<longleftrightarrow> y mod 4 = 0 \<and> (y mod 100 \<noteq> 0 \<or> y mod 400 = 0)"

definition days_in_month :: "nat \<Rightarrow> nat \<Rightarrow> nat" where
  "days_in_month y m =
     (if m = 2 then (if is_leap y then 29 else 28)
      else if m = 4 \<or> m = 6 \<or> m = 9 \<or> m = 11 then 30 else 31)"

definition valid_date :: "date \<Rightarrow> bool" where
  "valid_date d \<longleftrightarrow>
     1 \<le> year d \<and> year d \<le> 9999 \<and> 1 \<le> month d \<and> month d \<le> 12 \<and>
     1 \<le> day d \<and> day d \<le> days_in_month (year d) (month d)"

definition digit :: "nat \<Rightarrow> char" where
  "digit n = char_of (48 + n)"

definition isoformat :: "date \<Rightarrow> string" where
  "isoformat d =
     [digit (year d div 1000 mod 10), digit (year d div 100 mod 10),
      digit (year d div 10 mod 10), digit (year d mod 10), CHR ''-'',
      digit (month d div 10 mod 10), digit (month d mod 10), CHR ''-'',
      digit (day d div 10 mod 10), digit (day d mod 10)]"

definition minus_one_day :: "date \<Rightarrow> error + date" where
  "minus_one_day d =
     (if 1 < day d then Inr (d\<lparr>day := day d - 1\<rparr>)
      else if 1 < month d
        then Inr (d\<lparr>month := month d - 1, day := days_in_month (year d) (month d - 1)\<rparr>)
      else if 1 < year d then Inr (d\<lparr>year := year d - 1, month := 12, day := 31\<rparr>)
      else Inl OverflowError)"

text \<open>The calendar order: the first date is an earlier day than the second.\<close>

definition date_before :: "date \<Rightarrow> date \<Rightarrow> bool" where
  "date_before a b \<longleftrightarrow>
     year a < year b \<or> (year a = year b \<and> (month a < month b \<or> (month a = month b \<and> day a < day b)))"

text \<open>
  \<^verbatim>\<open>update_streak\<close>. The date \<^verbatim>\<open>date.today()\<close> returns is a parameter; the two
  readings of the clock in one call are taken to fall on the same day.
\<close>

definition update_streak :: "date \<Rightarrow> progress \<Rightarrow> error + progress" where
  "update_streak today_date p =
     (let today = isoformat today_date;
          last = last_played p
      in if last = today then Inr p
         else case minus_one_day today_date of
                Inl e \<Rightarrow> Inl e
              | Inr y \<Rightarrow>
                  Inr ((if last = isoformat y then p\<lparr>streak := streak p + 1\<rparr>
                        else if last = [] then p\<lparr>streak := 1\<rparr>
                        else p\<lparr>streak := 1\<rparr>)\<lparr>last_played := today\<rparr>))"

section \<open>Umlaut-lenient matching\<close>

text \<open>
  Typed answers and vocabulary are texts over the code points U+0000 to U+00FF, which
  hold every German letter; a code point is a \<open>char\<close>, so \<open>CHR 0xFC\<close> is the letter
  u with diaeresis (\<^verbatim>\<open>"\u00fc"\<close> in the source). On these code points \<^verbatim>\<open>str.lower\<close>
  maps A to Z and the letters U+00C0 to U+00DE (without the multiplication sign
  U+00D7) to the code point 32 higher, and leaves every other one as it is.
\<close>

definition lower_chr :: "char \<Rightarrow> char" where
  "lower_chr c =
     (let n = (of_char c :: nat) in
      if (0x41 \<le> n \<and> n \<le> 0x5A) \<or> (0xC0 \<le> n \<and> n \<le> 0xDE \<and> n \<noteq> 0xD7)
      then char_of (n + 0x20) else c)"

definition str_lower :: "string \<Rightarrow> string" where
  "str_lower s = map lower_chr s"

text \<open>
  The white space \<^verbatim>\<open>str.strip()\<close> removes: U+0009 to U+000D, U+001C to U+0020,
  U+0085 and U+00A0.
\<close>

definition isspace :: "char \<Rightarrow> bool" where
  "isspace c =
     (let n = (of_char c :: nat) in
      (0x09 \<le> n \<and> n \<le> 0x0D) \<or> (0x1C \<le> n \<and> n \<le> 0x20) \<or> n = 0x85 \<or> n = 0xA0)"

definition str_strip :: "string \<Rightarrow> string" where
  "str_strip s = rev (dropWhile isspace (rev (dropWhile isspace s)))"

text \<open>
  \<^verbatim>\<open>str.replace(old, new)\<close> where \<^verbatim>\<open>old\<close> is one character, as in each of the seven
  calls of \<^verbatim>\<open>normalize_german\<close>.
\<close>

definition str_replace :: "char \<Rightarrow> string \<Rightarrow> string \<Rightarrow> string" where
  "str_replace old new s = concat (map (\<lambda>c. if c = old then new else [c]) s)"

text \<open>
  \<^verbatim>\<open>normalize_german\<close>, statement by statement: the three lower-case umlauts
  (U+00FC, U+00F6, U+00E4), then the three upper-case ones (U+00DC, U+00D6, U+00C4),
  then the sharp s (U+00DF).
\<close>

definition normalize_german :: "string \<Rightarrow> string" where
  "normalize_german text =
     (let t = str_strip (str_lower text);
          t = str_replace (CHR 0xE4) ''a'' (str_replace (CHR 0xF6) ''o'' (str_replace (CHR 0xFC) ''u'' t));
          t = str_replace (CHR 0xC4) ''a'' (str_replace (CHR 0xD6) ''o'' (str_replace (CHR 0xDC) ''u'' t));
          t = str_replace (CHR 0xDF) ''ss'' t
      in t)"

text \<open>
  The substitution table in the words of the specification: u, o and a with diaeresis
  become u, o and a, the sharp s becomes ss, and every other letter stays.
\<close>

definition spec_base_letters :: "char \<Rightarrow> string" where
  "spec_base_letters c =
     (if c = CHR 0xFC then ''u''
      else if c = CHR 0xF6 then ''o''
      else if c = CHR 0xE4 then ''a''
      else if c = CHR 0xDF then ''ss''
      else [c])"

text \<open>A code point that \<^verbatim>\<open>str.lower\<close> can leave behind.\<close>

definition lowered :: "char \<Rightarrow> bool" where
  "lowered c \<longleftrightarrow> lower_chr c = c \<and> c \<noteq> CHR 0xDC \<and> c \<noteq> CHR 0xD6 \<and> c \<noteq> CHR 0xC4"

text \<open>A text with no white space at either end.\<close>

definition trimmed :: "string \<Rightarrow> bool" where
  "trimmed t \<longleftrightarrow> t = [] \<or> (\<not> isspace (hd t) \<and> \<not> isspace (last t))"

section \<open>Learned words\<close>

text \<open>
  \<^verbatim>\<open>words_learned_count\<close>: the generator sums a 1 for every stored object whose
  mastery is at least 3.
\<close>

definition words_learned_count :: "progress \<Rightarrow> int" where
  "words_learned_count p =
     sum_list (map (\<lambda>(k, e). 1) (filter (\<lambda>(k, e). 3 \<le> mastery e) (words p)))"

text \<open>
  \<^verbatim>\<open>category_completion\<close>. Python's \<^verbatim>\<open>learned / len(words)\<close> is the float nearest to
  the quotient; the model returns the quotient itself.
\<close>

definition category_completion :: "progress \<Rightarrow> string \<Rightarrow> word list \<Rightarrow> real" where
  "category_completion p category ws =
     (if ws = [] then 0
      else let learned = sum_list (map (\<lambda>w. 1::int)
                           (filter (\<lambda>w. 3 \<le> get_mastery p category (de w)) ws))
           in real_of_int learned / real (length ws))"

section \<open>Weighted word selection\<close>

text \<open>
  The weight list of \<^verbatim>\<open>weighted_sample\<close>: \<^verbatim>\<open>5 - m + 1\<close> for each word.
\<close>

definition word_weights :: "progress \<Rightarrow> string \<Rightarrow> word list \<Rightarrow> int list" where
  "word_weights p category ws = map (\<lambda>w. 5 - get_mastery p category (de w) + 1) ws"

text \<open>
  The \<^verbatim>\<open>while\<close> loop of \<^verbatim>\<open>weighted_sample\<close>. The random source is a parameter:
  \<open>draw k\<close> is the index that the call of \<^verbatim>\<open>random.choices(range(len(words)), ...)\<close>
  in round \<open>k\<close> of the loop returns, always an element of \<^verbatim>\<open>range(len(words))\<close>, so
  that \<^verbatim>\<open>words[idx]\<close> is never out of range. A chosen word is kept with its index,
  which is the identity of a list element.
\<close>

function sample_loop ::
  "(nat \<Rightarrow> nat) \<Rightarrow> word list \<Rightarrow> int \<Rightarrow> nat set \<Rightarrow> (nat \<times> word) list \<Rightarrow> nat
     \<Rightarrow> nat set \<times> (nat \<times> word) list" where
  "sample_loop draw ws n chosen_indices result attempts =
     (if int (length result) < n \<and> int attempts < n * 20
      then (let idx = draw attempts in
            if idx \<notin> chosen_indices
            then sample_loop draw ws n (insert idx chosen_indices)
                   (result @ [(idx, ws ! idx)]) (Suc attempts)
            else sample_loop draw ws n chosen_indices result (Suc attempts))
      else (chosen_indices, result))"
  by pat_completeness auto
termination
  by (relation "measure (\<lambda>(draw, ws, n, chosen_indices, result, attempts). nat (n * 20) - attempts)")
    auto

text \<open>
  \<^verbatim>\<open>weighted_sample\<close>, with the index of every returned word. The division
  \<^verbatim>\<open>w / total\<close> raises \<^verbatim>\<open>ZeroDivisionError\<close> when the weights sum to 0; the
  probabilities themselves only steer the random source. \<open>shuffle\<close> stands for
  \<^verbatim>\<open>random.shuffle\<close> on the list of the words not chosen.
\<close>

definition weighted_sample_indexed ::
  "(nat \<Rightarrow> nat) \<Rightarrow> ((nat \<times> word) list \<Rightarrow> (nat \<times> word) list) \<Rightarrow>
     progress \<Rightarrow> string \<Rightarrow> word list \<Rightarrow> int \<Rightarrow> error + (nat \<times> word) list" where
  "weighted_sample_indexed draw shuffle p category ws n =
     (if ws = [] then Inr []
      else let weights = word_weights p category ws;
               total = sum_list weights
           in if total = 0 then Inl ZeroDivisionError
              else let n' = min n (int (length ws));
                       (chosen_indices, result) = sample_loop draw ws n' {} [] 0
                   in if int (length result) < n'
                      then let remaining =
                                 filter (\<lambda>(i, w). i \<notin> chosen_indices) (enumerate 0 ws);
                               remaining = shuffle remaining
                           in Inr (result @ take (nat (n' - int (length result))) remaining)
                      else Inr result)"

definition weighted_sample ::
  "(nat \<Rightarrow> nat) \<Rightarrow> ((nat \<times> word) list \<Rightarrow> (nat \<times> word) list) \<Rightarrow>
     progress \<Rightarrow> string \<Rightarrow> word list \<Rightarrow> int \<Rightarrow> error + word list" where
  "weighted_sample draw shuffle p category ws n =
     (case weighted_sample_indexed draw shuffle p category ws n of
        Inl e \<Rightarrow> Inl e
      | Inr r \<Rightarrow> Inr (map snd r))"

text \<open>What \<^verbatim>\<open>random.shuffle\<close> guarantees: the list holds the same items afterwards.\<close>

definition is_shuffle :: "('a list \<Rightarrow> 'a list) \<Rightarrow> bool" where
  "is_shuffle f \<longleftrightarrow> (\<forall>xs. mset (f xs) = mset xs)"

text \<open>
  The invariant of the loop: the set of chosen indices is the set of indices of the
  result, no index occurs twice, and every entry is a word of the list at its index.
\<close>

definition loop_inv :: "word list \<Rightarrow> nat set \<Rightarrow> (nat \<times> word) list \<Rightarrow> bool" where
  "loop_inv ws chosen result \<longleftrightarrow>
     chosen = fst ` set result \<and> distinct (map fst result) \<and>
     (\<forall>(i, w) \<in> set result. i < length ws \<and> w = ws ! i)"

section \<open>Multiple-choice sets\<close>

text \<open>
  The padding loop of \<^verbatim>\<open>quiz_mode\<close>:
  \<^verbatim>\<open>while len(choices) < 4 and wrong_pool: choices.append(wrong_pool.pop())\<close>.
  \<^verbatim>\<open>list.pop()\<close> removes and returns the last item.
\<close>

function pad_choices :: "string list \<Rightarrow> string list \<Rightarrow> string list \<times> string list" where
  "pad_choices choices wrong_pool =
     (if length choices < 4 \<and> wrong_pool \<noteq> []
      then pad_choices (choices @ [last wrong_pool]) (butlast wrong_pool)
      else (choices, wrong_pool))"
  by pat_completeness auto
termination
  by (relation "measure (\<lambda>(choices, wrong_pool). length wrong_pool)") auto

text \<open>
  The block of \<^verbatim>\<open>quiz_mode\<close> that builds the choices of one question, which the two
  branches of the direction test repeat word for word with \<^verbatim>\<open>"de"\<close> and \<^verbatim>\<open>"en"\<close>
  exchanged. \<open>column\<close> is the list \<^verbatim>\<open>w["de"]\<close> (or \<^verbatim>\<open>w["en"]\<close>) over all words; the
  two calls of \<^verbatim>\<open>random.shuffle\<close> are parameters. \<^verbatim>\<open>list(set(...))\<close> is reached only
  with a list that repeats one value, where it gives that value once.
\<close>

definition build_choices ::
  "(string list \<Rightarrow> string list) \<Rightarrow> (string list \<Rightarrow> string list) \<Rightarrow>
     string \<Rightarrow> string list \<Rightarrow> string list" where
  "build_choices shuffle_pool shuffle_choices correct_answer column =
     (let wrong_pool = filter (\<lambda>x. x \<noteq> correct_answer) column;
          wrong_pool = shuffle_pool wrong_pool;
          choices = [correct_answer] @ take 3 wrong_pool;
          (choices, wrong_pool) = pad_choices choices wrong_pool;
          choices = shuffle_choices choices
      in if length choices < 2 then remdups (choices @ [correct_answer]) else choices)"

text \<open>
  The direction of question \<open>qi\<close> (counted from 1): the German text is asked for on
  odd questions, the English text on even ones.
\<close>

definition correct_answer_of :: "nat \<Rightarrow> word \<Rightarrow> string" where
  "correct_answer_of qi w = (if qi mod 2 = 1 then de w else en w)"

definition quiz_choices ::
  "(string list \<Rightarrow> string list) \<Rightarrow> (string list \<Rightarrow> string list) \<Rightarrow>
     nat \<Rightarrow> word list \<Rightarrow> word \<Rightarrow> string list" where
  "quiz_choices shuffle_pool shuffle_choices qi ws w =
     (if qi mod 2 = 1
      then build_choices shuffle_pool shuffle_choices (de w) (map de ws)
      else build_choices shuffle_pool shuffle_choices (en w) (map en ws))"

text \<open>
  The pool of alternatives in the words of the specification: the values of the asked
  column that differ from the correct answer.
\<close>

definition spec_pool :: "nat \<Rightarrow> word list \<Rightarrow> word \<Rightarrow> string list" where
  "spec_pool qi ws w =
     filter (\<lambda>x. x \<noteq> correct_answer_of qi w) (map (\<lambda>v. correct_answer_of qi v) ws)"

section \<open>Practice modes\<close>

text \<open>
  What a mode does besides changing the progress document is kept as a log of events:
  a printed message, a question put to the user with its choices, a call of
  \<^verbatim>\<open>save_progress\<close> with the document written, the final panel with score and number
  of questions, and a wait for the Enter key. Banners, colours and pauses are left out.
\<close>

datatype event =
  Print string
  | Question string "string list"
  | Save progress
  | Result_panel int int
  | Press_enter

text \<open>\<^verbatim>\<open>save_progress\<close> writes the whole document.\<close>

definition save_progress :: "progress \<Rightarrow> event list \<Rightarrow> event list" where
  "save_progress p evs = evs @ [Save p]"

definition press_enter_to_continue :: "event list \<Rightarrow> event list" where
  "press_enter_to_continue evs = evs @ [Press_enter]"

definition is_save :: "event \<Rightarrow> bool" where
  "is_save e = (case e of Save p \<Rightarrow> True | _ \<Rightarrow> False)"

definition is_question :: "event \<Rightarrow> bool" where
  "is_question e = (case e of Question t cs \<Rightarrow> True | _ \<Rightarrow> False)"

text \<open>
  What the environment supplies to a quiz: the indices drawn and the shuffle used by
  \<^verbatim>\<open>weighted_sample\<close>, the two shuffles of question \<open>qi\<close>, and the number the user
  enters at question \<open>qi\<close> when shown the choices (\<^verbatim>\<open>Prompt.ask\<close> accepts only the
  numbers 1 to \<^verbatim>\<open>len(choices)\<close>).
\<close>

record quiz_env =
  drawn :: "nat \<Rightarrow> nat"
  shuffled_rest :: "(nat \<times> word) list \<Rightarrow> (nat \<times> word) list"
  shuffled_pool :: "nat \<Rightarrow> string list \<Rightarrow> string list"
  shuffled_choices :: "nat \<Rightarrow> string list \<Rightarrow> string list"
  entered :: "nat \<Rightarrow> string list \<Rightarrow> nat"

text \<open>The text shown as the question: the other column of the word.\<close>

definition prompt_text_of :: "nat \<Rightarrow> word \<Rightarrow> string" where
  "prompt_text_of qi w = (if qi mod 2 = 1 then en w else de w)"

text \<open>
  One round of the \<^verbatim>\<open>for\<close> loop of \<^verbatim>\<open>quiz_mode\<close>, on the state (score, document,
  log).
\<close>

definition quiz_question ::
  "quiz_env \<Rightarrow> string \<Rightarrow> word list \<Rightarrow> nat \<Rightarrow> word \<Rightarrow> int \<times> progress \<times> event list
     \<Rightarrow> int \<times> progress \<times> event list" where
  "quiz_question env category ws qi w st =
     (let (score, p, evs) = st;
          correct_answer = correct_answer_of qi w;
          choices = quiz_choices (shuffled_pool env qi) (shuffled_choices env qi) qi ws w;
          evs = evs @ [Question (prompt_text_of qi w) choices];
          answer = entered env qi choices;
          selected = choices ! (answer - 1);
          (score, p) =
            (if selected = correct_answer
             then (score + 1, (record_answer p category (de w) True)\<lparr>xp := xp (record_answer p category (de w) True) + 10\<rparr>)
             else (score, record_answer p category (de w) False))
      in (score, p, save_progress p evs))"

text \<open>The loop over \<^verbatim>\<open>enumerate(questions, 1)\<close>, from question number \<open>qi\<close> on.\<close>

fun quiz_questions ::
  "quiz_env \<Rightarrow> string \<Rightarrow> word list \<Rightarrow> nat \<Rightarrow> word list \<Rightarrow> int \<times> progress \<times> event list
     \<Rightarrow> int \<times> progress \<times> event list" where
  "quiz_questions env category ws qi [] st = st"
| "quiz_questions env category ws qi (w # questions) st =
     quiz_questions env category ws (Suc qi) questions (quiz_question env category ws qi w st)"

definition quiz_mode ::
  "quiz_env \<Rightarrow> progress \<Rightarrow> string \<Rightarrow> word list \<Rightarrow> event list
     \<Rightarrow> error + progress \<times> event list" where
  "quiz_mode env p category ws evs =
     (if length ws < 2
      then Inr (p, press_enter_to_continue
                     (evs @ [Print ''[red]Not enough words for a quiz in this category.[/red]'']))
      else let n_questions = min 10 (int (length ws)) in
           case weighted_sample (drawn env) (shuffled_rest env) p category ws n_questions of
             Inl e \<Rightarrow> Inl e
           | Inr questions \<Rightarrow>
               let (score, p, evs) = quiz_questions env category ws 1 questions (0, p, evs)
               in Inr (p, press_enter_to_continue (evs @ [Result_panel score n_questions])))"

section \<open>Speed round\<close>

text \<open>
  What the environment supplies to a speed round: the readings of \<^verbatim>\<open>time.time()\<close> in
  the order they are taken; and for round number \<open>n_total\<close> (the counter \<^verbatim>\<open>total\<close>) the index of the word that
  \<^verbatim>\<open>random.choices\<close> picks, whether \<^verbatim>\<open>random.random() < 0.5\<close>, the two shuffles,
  and the answer typed, as the integer \<^verbatim>\<open>int(answer)\<close> or nothing when \<^verbatim>\<open>int\<close> raises
  \<^verbatim>\<open>ValueError\<close>. Time is a real number and is subtracted exactly.
\<close>

record speed_env =
  clock :: "nat \<Rightarrow> real"
  picked :: "nat \<Rightarrow> nat"
  asks_german :: "nat \<Rightarrow> bool"
  speed_shuffled_pool :: "nat \<Rightarrow> string list \<Rightarrow> string list"
  speed_shuffled_choices :: "nat \<Rightarrow> string list \<Rightarrow> string list"
  speed_entered :: "nat \<Rightarrow> string list \<Rightarrow> int option"

text \<open>
  Python's list indexing: a negative index counts from the end, an index out of range
  raises \<^verbatim>\<open>IndexError\<close> (here: no value).
\<close>

definition py_index :: "'a list \<Rightarrow> int \<Rightarrow> 'a option" where
  "py_index xs i =
     (let n = int (length xs);
          j = (if i < 0 then i + n else i)
      in if 0 \<le> j \<and> j < n then Some (xs ! nat j) else None)"

text \<open>
  The \<^verbatim>\<open>while True\<close> loop of \<^verbatim>\<open>speed_round\<close> on the state (number of clock readings
  taken, score, \<^verbatim>\<open>total\<close>, document, log). The loop ends only when a reading of the clock
  is 60 seconds or more after the start, so for a clock that never gets there it does not
  return: the result is then \<open>None\<close>. \<^verbatim>\<open>random.choices\<close> raises \<^verbatim>\<open>ValueError\<close> when
  the weights do not sum to more than zero.
\<close>

partial_function (option) speed_loop ::
  "speed_env \<Rightarrow> string \<Rightarrow> word list \<Rightarrow> real \<Rightarrow> nat \<times> int \<times> nat \<times> progress \<times> event list
     \<Rightarrow> (error + int \<times> nat \<times> progress \<times> event list) option" where
  "speed_loop env category ws start_time st =
     (let (r, score, n_total, p, evs) = st;
          elapsed = clock env r - start_time;
          remaining = 60 - elapsed
      in if remaining \<le> 0 then Some (Inr (score, n_total, p, evs))
         else
           let n_total = n_total + 1 in
           if sum_list (word_weights p category ws) \<le> 0 then Some (Inl ValueError)
           else
             let word = ws ! picked env n_total;
                 (prompt_text, correct_answer) =
                   (if asks_german env n_total then (en word, de word) else (de word, en word));
                 wrong_pool =
                   filter (\<lambda>x. x \<noteq> correct_answer)
                     (map (\<lambda>w. if correct_answer = de word then de w else en w) ws);
                 wrong_pool = speed_shuffled_pool env n_total wrong_pool;
                 choices = [correct_answer] @ take 3 wrong_pool;
                 choices = speed_shuffled_choices env n_total choices;
                 evs = evs @ [Question prompt_text choices]
             in if clock env (r + 1) - start_time \<ge> 60 then Some (Inr (score, n_total, p, evs))
                else
                  let answer = speed_entered env n_total choices in
                  if clock env (r + 2) - start_time \<ge> 60 then Some (Inr (score, n_total, p, evs))
                  else
                    let selected =
                          (case answer of
                             None \<Rightarrow> []
                           | Some k \<Rightarrow> (case py_index choices (k - 1) of None \<Rightarrow> [] | Some c \<Rightarrow> c));
                        score' = (if selected = correct_answer then score + 1 else score);
                        p' = (if selected = correct_answer
                              then (record_answer p category (de word) True)
                                     \<lparr>xp := xp (record_answer p category (de word) True) + 5\<rparr>
                              else record_answer p category (de word) False)
                    in speed_loop env category ws start_time
                         (r + 3, score', n_total, p', save_progress p' evs))"

declare speed_loop.simps [code]

text \<open>The end of \<^verbatim>\<open>speed_round\<close>: the personal best, the final panel, the wait.\<close>

definition speed_finish :: "int \<Rightarrow> nat \<Rightarrow> progress \<Rightarrow> event list \<Rightarrow> progress \<times> event list" where
  "speed_finish score n_total p evs =
     (let is_new_best = score > best_speed p;
          (p, evs) = (if is_new_best
                      then (p\<lparr>best_speed := score\<rparr>, save_progress (p\<lparr>best_speed := score\<rparr>) evs)
                      else (p, evs))
      in (p, press_enter_to_continue (evs @ [Result_panel score (int n_total)])))"

definition speed_round ::
  "speed_env \<Rightarrow> progress \<Rightarrow> string \<Rightarrow> word list \<Rightarrow> event list
     \<Rightarrow> (error + progress \<times> event list) option" where
  "speed_round env p category ws evs =
     (if length ws < 2
      then Some (Inr (p, press_enter_to_continue
                           (evs @ [Print ''[red]Not enough words for a speed round.[/red]''])))
      else let evs = press_enter_to_continue
                       (evs @ [Print ''Answer as many multiple choice questions as you can in 60 seconds!'']);
               start_time = clock env 0
           in case speed_loop env category ws start_time (1, 0, 0, p, evs) of
                None \<Rightarrow> None
              | Some (Inl e) \<Rightarrow> Some (Inl e)
              | Some (Inr (score, n_total, p, evs)) \<Rightarrow> Some (Inr (speed_finish score n_total p evs)))"

text \<open>
  A sequence of speed rounds on one document, each with its own environment, category
  and word list; it stops at the first round that raises or does not return.
\<close>

fun speed_rounds ::
  "(speed_env \<times> string \<times> word list) list \<Rightarrow> progress \<Rightarrow> event list
     \<Rightarrow> (error + progress \<times> event list) option" where
  "speed_rounds [] p evs = Some (Inr (p, evs))"
| "speed_rounds ((env, category, ws) # rounds) p evs =
     (case speed_round env p category ws evs of
        None \<Rightarrow> None
      | Some (Inl e) \<Rightarrow> Some (Inl e)
      | Some (Inr (p', evs')) \<Rightarrow> speed_rounds rounds p' evs')"

text \<open>
  What the loop keeps: a returned state has the personal best of the state it started
  from, and a score that is not lower.
\<close>

definition best_kept :: "nat \<times> int \<times> nat \<times> progress \<times> event list \<Rightarrow>
    error + int \<times> nat \<times> progress \<times> event list \<Rightarrow> bool" where
  "best_kept st y =
     (case y of
        Inl e \<Rightarrow> True
      | Inr (score', n', p', evs') \<Rightarrow>
          best_speed p' = best_speed (fst (snd (snd (snd st)))) \<and> fst (snd st) \<le> score')"

section \<open>Mastery store\<close>

lemma map_of_setdefault:
  "map_of (fst (setdefault d key dflt)) = (map_of d)(key \<mapsto> snd (setdefault d key dflt))"
  by (auto simp: setdefault_def fun_eq_iff map_add_def split: option.splits)

lemma snd_setdefault:
  "snd (setdefault (words p) key new_entry) = stored_entry p key"
  by (simp add: setdefault_def stored_entry_def split: option.splits)

lemma map_of_record_answer:
  "map_of (words (record_answer p category de_word b)) =
     (map_of (words p))(get_word_key category de_word \<mapsto>
        (let e = stored_entry p (get_word_key category de_word) in
         if b then e\<lparr>correct := correct e + 1, mastery := min (mastery e + 1) 5\<rparr>
         else e\<lparr>wrong := wrong e + 1, mastery := max (mastery e - 1) 0\<rparr>))"
proof -
  obtain d e where de: "setdefault (words p) (get_word_key category de_word) new_entry = (d, e)"
    by (cases "setdefault (words p) (get_word_key category de_word) new_entry")
  have e: "e = stored_entry p (get_word_key category de_word)"
    using snd_setdefault [of p "get_word_key category de_word"] de by simp
  have d: "map_of d = (map_of (words p))(get_word_key category de_word \<mapsto> e)"
    using map_of_setdefault [of "words p" "get_word_key category de_word" new_entry] de by simp
  show ?thesis
    by (simp add: record_answer_def de update_conv' d e Let_def)
qed

lemma set_update_subset:
  "set (AList.update k v al) \<subseteq> insert (k, v) (set al)"
  by (induction al) auto

lemma mastery_ok_record_answer:
  assumes "mastery_ok p"
  shows "mastery_ok (record_answer p category de_word b)"
proof -
  let ?key = "get_word_key category de_word"
  obtain d e where de: "setdefault (words p) ?key new_entry = (d, e)"
    by (cases "setdefault (words p) ?key new_entry")
  have dsub: "set d \<subseteq> insert (?key, new_entry) (set (words p))"
    using de by (auto simp: setdefault_def split: option.splits)
  have e_in: "(?key, e) \<in> set d"
    using de by (auto simp: setdefault_def split: option.splits dest: map_of_SomeD)
  have old: "\<forall>(k, x) \<in> set d. 0 \<le> mastery x \<and> mastery x \<le> 5"
    using assms dsub by (auto simp: mastery_ok_def list_all_iff new_entry_def)
  then have e_ok: "0 \<le> mastery e \<and> mastery e \<le> 5"
    using e_in by auto
  define e' where "e' = (if b
                then e\<lparr>correct := correct e + 1, mastery := min (mastery e + 1) 5\<rparr>
                else e\<lparr>wrong := wrong e + 1, mastery := max (mastery e - 1) 0\<rparr>)"
  have e'_ok: "0 \<le> mastery e' \<and> mastery e' \<le> 5"
    using e_ok by (simp add: e'_def)
  have "\<forall>(k, x) \<in> set (AList.update ?key e' d). 0 \<le> mastery x \<and> mastery x \<le> 5"
    using set_update_subset [of ?key e' d] old e'_ok by auto
  moreover have "words (record_answer p category de_word b) = AList.update ?key e' d"
    by (simp add: record_answer_def de e'_def)
  ultimately show ?thesis
    by (simp add: mastery_ok_def list_all_iff)
qed

lemma mastery_ok_record_answers:
  "mastery_ok p \<Longrightarrow> mastery_ok (record_answers p calls)"
  by (induction p calls rule: record_answers.induct) (simp_all add: mastery_ok_record_answer)

lemma mastery_ok_fresh: "mastery_ok fresh_progress"
  by (simp add: mastery_ok_def fresh_progress_def)

text \<open>
  Claim C1. \<^verbatim>\<open>record_answer\<close> with \<^verbatim>\<open>correct=True\<close> leaves under the word's key the
  object it held before (the default with mastery 0 and zero counters when the key
  was absent) with \<open>mastery\<close> set to \<open>min (m + 1) 5\<close> and \<open>correct\<close> incremented;
  with \<^verbatim>\<open>correct=False\<close> it sets \<open>mastery\<close> to \<open>max (m - 1) 0\<close> and increments
  \<open>wrong\<close>. Every other key keeps its object. Hence, from a document whose mastery
  values lie in \<open>[0, 5]\<close> (the fresh document is one), every sequence of calls leads
  to a document whose mastery values lie in \<open>[0, 5]\<close>.
\<close>

theorem record_answer_mastery_bounded:
  "(let key = get_word_key category de_word; e = stored_entry p key in
      map_of (words (record_answer p category de_word True)) key =
        Some (e\<lparr>correct := correct e + 1, mastery := min (mastery e + 1) 5\<rparr>) \<and>
      map_of (words (record_answer p category de_word False)) key =
        Some (e\<lparr>wrong := wrong e + 1, mastery := max (mastery e - 1) 0\<rparr>) \<and>
      (map_of (words p) key = None \<longrightarrow> e = \<lparr>mastery = 0, correct = 0, wrong = 0\<rparr>) \<and>
      (\<forall>k b. k \<noteq> key \<longrightarrow>
         map_of (words (record_answer p category de_word b)) k = map_of (words p) k)) \<and>
   (mastery_ok p \<longrightarrow> mastery_ok (record_answers p calls)) \<and>
   mastery_ok (record_answers fresh_progress calls)"
  by (simp add: Let_def map_of_record_answer stored_entry_def new_entry_def
        mastery_ok_record_answers mastery_ok_fresh)

theorem record_answer_mastery_bounded_witness:
  "mastery_ok (fresh_progress\<lparr>words := [(''verbs:gehen'', \<lparr>mastery = 5, correct = 7, wrong = 2\<rparr>)]\<rparr>) \<and>
   mastery_ok (record_answers
     (fresh_progress\<lparr>words := [(''verbs:gehen'', \<lparr>mastery = 5, correct = 7, wrong = 2\<rparr>)]\<rparr>)
     [(''verbs'', ''gehen'', True), (''nouns'', ''Hund'', False), (''nouns'', ''Hund'', True)]) \<and>
   map_of (words (record_answer
     (fresh_progress\<lparr>words := [(''verbs:gehen'', \<lparr>mastery = 5, correct = 7, wrong = 2\<rparr>)]\<rparr>)
     ''verbs'' ''gehen'' True)) ''verbs:gehen'' = Some \<lparr>mastery = 5, correct = 8, wrong = 2\<rparr> \<and>
   map_of (words (record_answer
     (fresh_progress\<lparr>words := [(''verbs:gehen'', \<lparr>mastery = 5, correct = 7, wrong = 2\<rparr>)]\<rparr>)
     ''nouns'' ''Hund'' False)) ''nouns:Hund'' = Some \<lparr>mastery = 0, correct = 0, wrong = 1\<rparr> \<and>
   map_of (words (record_answer
     (fresh_progress\<lparr>words := [(''verbs:gehen'', \<lparr>mastery = 5, correct = 7, wrong = 2\<rparr>)]\<rparr>)
     ''nouns'' ''Hund'' False)) ''verbs:gehen'' = Some \<lparr>mastery = 5, correct = 7, wrong = 2\<rparr>"
proof -
  let ?p = "fresh_progress\<lparr>words := [(''verbs:gehen'', \<lparr>mastery = 5, correct = 7, wrong = 2\<rparr>)]\<rparr>"
  have ok: "mastery_ok ?p"
    by (simp add: mastery_ok_def fresh_progress_def)
  have absent: "map_of (words ?p) (get_word_key ''nouns'' ''Hund'') = None"
    by (simp add: get_word_key_def fresh_progress_def)
  have other: "''verbs:gehen'' \<noteq> get_word_key ''nouns'' ''Hund''"
    by (simp add: get_word_key_def)
  note a = record_answer_mastery_bounded [of "''verbs''" "''gehen''" ?p
      "[(''verbs'', ''gehen'', True), (''nouns'', ''Hund'', False), (''nouns'', ''Hund'', True)]"]
  note b = record_answer_mastery_bounded [of "''nouns''" "''Hund''" ?p "[]"]
  have seq: "mastery_ok (record_answers ?p
      [(''verbs'', ''gehen'', True), (''nouns'', ''Hund'', False), (''nouns'', ''Hund'', True)])"
    using a ok by (auto simp only: Let_def)
  have up: "map_of (words (record_answer ?p ''verbs'' ''gehen'' True)) ''verbs:gehen'' =
      Some \<lparr>mastery = 5, correct = 8, wrong = 2\<rparr>"
    using a by (simp add: Let_def stored_entry_def get_word_key_def fresh_progress_def)
  have down: "map_of (words (record_answer ?p ''nouns'' ''Hund'' False)) ''nouns:Hund'' =
      Some \<lparr>mastery = 0, correct = 0, wrong = 1\<rparr>"
    using b absent
    by (simp add: Let_def stored_entry_def get_word_key_def fresh_progress_def new_entry_def)
  have "\<forall>k b. k \<noteq> get_word_key ''nouns'' ''Hund'' \<longrightarrow>
      map_of (words (record_answer ?p ''nouns'' ''Hund'' b)) k = map_of (words ?p) k"
    using b by (auto simp only: Let_def)
  then have "map_of (words (record_answer ?p ''nouns'' ''Hund'' False)) ''verbs:gehen'' =
      map_of (words ?p) ''verbs:gehen''"
    using other by blast
  then have keep: "map_of (words (record_answer ?p ''nouns'' ''Hund'' False)) ''verbs:gehen'' =
      Some \<lparr>mastery = 5, correct = 7, wrong = 2\<rparr>"
    by (simp add: fresh_progress_def)
  show ?thesis
    using ok seq up down keep by blast
qed

section \<open>Properties of the daily streak\<close>

lemma digit_inj: "a < 10 \<Longrightarrow> b < 10 \<Longrightarrow> digit a = digit b \<Longrightarrow> a = b"
proof -
  assume a: "a < 10" and b: "b < 10" and e: "digit a = digit b"
  then have "(of_char (digit a) :: nat) = of_char (digit b)" by simp
  then have "(48 + a) mod 256 = (48 + b) mod 256"
    by (simp add: digit_def)
  with a b show "a = b" by simp
qed

lemma digits2_inj:
  assumes "a < 100" "b < 100"
    and "a div 10 mod 10 = b div 10 mod 10" "a mod 10 = b mod 10"
  shows "(a::nat) = b"
proof -
  have "a div 10 < 10" "b div 10 < 10" using assms by simp_all
  then have "a div 10 = b div 10" using assms by simp
  then show ?thesis using assms(4) by (metis div_mult_mod_eq)
qed

lemma digits4_inj:
  assumes "a < 10000" "b < 10000"
    and "a div 1000 mod 10 = b div 1000 mod 10" "a div 100 mod 10 = b div 100 mod 10"
    and "a div 10 mod 10 = b div 10 mod 10" "a mod 10 = b mod 10"
  shows "(a::nat) = b"
proof -
  have "a div 1000 < 10" "b div 1000 < 10" using assms(1,2) by (simp_all add: less_mult_imp_div_less)
  then have 3: "a div 1000 = b div 1000" using assms by simp
  have "a div 100 div 10 = b div 100 div 10" using 3 by (simp add: div_mult2_eq [symmetric])
  then have 2: "a div 100 = b div 100" using assms(4) by (metis div_mult_mod_eq)
  have "a div 10 div 10 = b div 10 div 10" using 2 by (simp add: div_mult2_eq [symmetric])
  then have 1: "a div 10 = b div 10" using assms(5) by (metis div_mult_mod_eq)
  then show ?thesis using assms(6) by (metis div_mult_mod_eq)
qed

lemma days_in_month_le: "days_in_month y m \<le> 31"
  by (simp add: days_in_month_def)

lemma days_in_month_ge: "1 \<le> days_in_month y m"
  by (simp add: days_in_month_def)

lemma isoformat_inj:
  assumes va: "valid_date a" and vb: "valid_date b" and e: "isoformat a = isoformat b"
  shows "a = b"
proof -
  have ba: "year a < 10000" "month a < 100" "day a < 100"
    using va days_in_month_le [of "year a" "month a"] by (auto simp: valid_date_def)
  have bb: "year b < 10000" "month b < 100" "day b < 100"
    using vb days_in_month_le [of "year b" "month b"] by (auto simp: valid_date_def)
  have d: "\<And>x y. digit (x mod 10) = digit (y mod 10) \<longleftrightarrow> x mod 10 = y mod 10"
    using digit_inj by (metis mod_less_divisor zero_less_numeral)
  from e have
    "digit (year a div 1000 mod 10) = digit (year b div 1000 mod 10)"
    "digit (year a div 100 mod 10) = digit (year b div 100 mod 10)"
    "digit (year a div 10 mod 10) = digit (year b div 10 mod 10)"
    "digit (year a mod 10) = digit (year b mod 10)"
    "digit (month a div 10 mod 10) = digit (month b div 10 mod 10)"
    "digit (month a mod 10) = digit (month b mod 10)"
    "digit (day a div 10 mod 10) = digit (day b div 10 mod 10)"
    "digit (day a mod 10) = digit (day b mod 10)"
    by (simp_all add: isoformat_def)
  then have
    "year a div 1000 mod 10 = year b div 1000 mod 10" "year a div 100 mod 10 = year b div 100 mod 10"
    "year a div 10 mod 10 = year b div 10 mod 10" "year a mod 10 = year b mod 10"
    "month a div 10 mod 10 = month b div 10 mod 10" "month a mod 10 = month b mod 10"
    "day a div 10 mod 10 = day b div 10 mod 10" "day a mod 10 = day b mod 10"
    by (simp_all only: d)
  then have "year a = year b" "month a = month b" "day a = day b"
    using ba bb digits4_inj [of "year a" "year b"] digits2_inj [of "month a" "month b"]
      digits2_inj [of "day a" "day b"] by blast+
  then show ?thesis by simp
qed

lemma isoformat_nonempty: "isoformat d \<noteq> []"
  by (simp add: isoformat_def)

lemma minus_one_day_cases:
  assumes "valid_date t" "minus_one_day t = Inr y"
  obtains (day) "1 < day t" "year y = year t" "month y = month t" "day y = day t - 1"
    | (month) "day t = 1" "1 < month t" "year y = year t" "month y = month t - 1"
        "day y = days_in_month (year t) (month t - 1)"
    | (year) "day t = 1" "month t = 1" "1 < year t" "year y = year t - 1" "month y = 12"
        "day y = 31"
proof -
  have d: "1 \<le> day t" and m: "1 \<le> month t"
    using assms(1) by (simp_all add: valid_date_def)
  show thesis
  proof (cases "1 < day t")
    case True
    then have "y = t\<lparr>day := day t - 1\<rparr>"
      using assms(2) by (simp add: minus_one_day_def)
    then show thesis using True day by simp
  next
    case False
    then have d1: "day t = 1" using d by simp
    show thesis
    proof (cases "1 < month t")
      case True
      then have "y = t\<lparr>month := month t - 1, day := days_in_month (year t) (month t - 1)\<rparr>"
        using assms(2) d1 by (simp add: minus_one_day_def)
      then show thesis using True d1 month by simp
    next
      case False
      then have m1: "month t = 1" using m by simp
      show thesis
      proof (cases "1 < year t")
        case True
        then have "y = t\<lparr>year := year t - 1, month := 12, day := 31\<rparr>"
          using assms(2) d1 m1 by (simp add: minus_one_day_def)
        then show thesis using True d1 m1 year by simp
      next
        case False
        then show thesis using assms(2) d1 m1 by (simp add: minus_one_day_def)
      qed
    qed
  qed
qed

lemma minus_one_day_valid:
  assumes v: "valid_date t" and y: "minus_one_day t = Inr y"
  shows "valid_date y \<and> date_before y t"
  using v y
proof (cases rule: minus_one_day_cases)
  case day
  then show ?thesis using v unfolding valid_date_def date_before_def by auto
next
  case month
  then show ?thesis
    using v days_in_month_ge [of "year t" "month t - 1"]
    unfolding valid_date_def date_before_def by auto
next
  case year
  have "days_in_month (year t - 1) 12 = 31" by (simp add: days_in_month_def)
  then show ?thesis
    using v year unfolding valid_date_def date_before_def by auto
qed

lemma date_before_irrefl: "\<not> date_before a a"
  by (simp add: date_before_def)

lemma date_before_trans: "date_before a b \<Longrightarrow> date_before b c \<Longrightarrow> date_before a c"
  unfolding date_before_def by auto

lemma minus_one_day_adjacent:
  assumes v: "valid_date t" and y: "minus_one_day t = Inr y"
    and vd: "valid_date d" and b: "date_before y d"
  shows "\<not> date_before d t"
proof -
  have dd: "day d \<le> days_in_month (year d) (month d)" "1 \<le> day d" "month d \<le> 12" "1 \<le> month d"
    using vd by (simp_all add: valid_date_def)
  have le31: "days_in_month (year d) (month d) \<le> 31" by (rule days_in_month_le)
  from v y show ?thesis
  proof (cases rule: minus_one_day_cases)
    case day
    then show ?thesis using b unfolding date_before_def by linarith
  next
    case month
    show ?thesis
    proof
      assume bt: "date_before d t"
      have "year d = year t" using b bt month unfolding date_before_def by linarith
      moreover have "month d = month t - 1 \<or> month d = month t"
        using b bt month calculation unfolding date_before_def by linarith
      ultimately show False
        using b bt month dd unfolding date_before_def by auto
    qed
  next
    case year
    show ?thesis
    proof
      assume bt: "date_before d t"
      have "year d = year t - 1 \<or> year d = year t"
        using b bt year unfolding date_before_def by linarith
      then show False
      proof
        assume "year d = year t - 1"
        then show False using b year dd le31 unfolding date_before_def by auto
      next
        assume "year d = year t"
        then show False using bt year dd unfolding date_before_def by auto
      qed
    qed
  qed
qed

text \<open>
  Claim C5. Let \<open>y\<close> be the day before today (a valid date, earlier than today, with
  no valid date between the two). \<^verbatim>\<open>update_streak\<close> leaves the document unchanged when
  the stored date is today's; increments \<open>streak\<close> by exactly 1 when it is \<open>y\<close>'s;
  sets \<open>streak\<close> to 1 when it is empty or the date of a day before \<open>y\<close> (at least
  two days in the past); and in every case other than the same day stores today's
  date.
\<close>

theorem update_streak_cases:
  assumes "valid_date today" and "minus_one_day today = Inr y"
  shows "(valid_date y \<and> date_before y today \<and>
          (\<forall>d. valid_date d \<and> date_before y d \<longrightarrow> \<not> date_before d today)) \<and>
         (last_played p = isoformat today \<longrightarrow> update_streak today p = Inr p) \<and>
         (last_played p = isoformat y \<longrightarrow>
            update_streak today p =
              Inr (p\<lparr>streak := streak p + 1, last_played := isoformat today\<rparr>)) \<and>
         (last_played p = [] \<longrightarrow>
            update_streak today p = Inr (p\<lparr>streak := 1, last_played := isoformat today\<rparr>)) \<and>
         (valid_date d \<and> date_before d y \<and> last_played p = isoformat d \<longrightarrow>
            update_streak today p = Inr (p\<lparr>streak := 1, last_played := isoformat today\<rparr>)) \<and>
         (last_played p \<noteq> isoformat today \<longrightarrow>
            (\<exists>p'. update_streak today p = Inr p' \<and> last_played p' = isoformat today))"
proof -
  have vy: "valid_date y" and bef: "date_before y today"
    using minus_one_day_valid [OF assms] by simp_all
  have adj: "\<forall>d. valid_date d \<and> date_before y d \<longrightarrow> \<not> date_before d today"
    using minus_one_day_adjacent [OF assms] by blast
  have y_ne: "isoformat y \<noteq> isoformat today"
  proof
    assume "isoformat y = isoformat today"
    then have "y = today" using isoformat_inj vy assms(1) by blast
    then show False using bef date_before_irrefl by simp
  qed
  have same: "last_played p = isoformat today \<longrightarrow> update_streak today p = Inr p"
    by (simp add: update_streak_def Let_def)
  have incr: "last_played p = isoformat y \<longrightarrow>
      update_streak today p = Inr (p\<lparr>streak := streak p + 1, last_played := isoformat today\<rparr>)"
    using y_ne by (simp add: update_streak_def Let_def assms(2))
  have empty: "last_played p = [] \<longrightarrow>
      update_streak today p = Inr (p\<lparr>streak := 1, last_played := isoformat today\<rparr>)"
    using isoformat_nonempty [of today] isoformat_nonempty [of y]
    by (auto simp: update_streak_def Let_def assms(2))
  have gap: "valid_date d \<and> date_before d y \<and> last_played p = isoformat d \<longrightarrow>
      update_streak today p = Inr (p\<lparr>streak := 1, last_played := isoformat today\<rparr>)"
  proof (intro impI, elim conjE)
    assume vd: "valid_date d" and bd: "date_before d y" and l: "last_played p = isoformat d"
    have "d \<noteq> y" using bd date_before_irrefl by blast
    then have 1: "isoformat d \<noteq> isoformat y" using isoformat_inj vd vy by blast
    have "date_before d today" using bd bef date_before_trans by blast
    then have "d \<noteq> today" using date_before_irrefl by blast
    then have 2: "isoformat d \<noteq> isoformat today" using isoformat_inj vd assms(1) by blast
    show "update_streak today p = Inr (p\<lparr>streak := 1, last_played := isoformat today\<rparr>)"
      using 1 2 l by (simp add: update_streak_def Let_def assms(2))
  qed
  have other: "last_played p \<noteq> isoformat today \<longrightarrow>
      (\<exists>p'. update_streak today p = Inr p' \<and> last_played p' = isoformat today)"
    by (simp add: update_streak_def Let_def assms(2))
  show ?thesis
    using vy bef adj same incr empty gap other by blast
qed

theorem update_streak_cases_witness:
  "valid_date \<lparr>year = 2024, month = 3, day = 1\<rparr> \<and>
   minus_one_day \<lparr>year = 2024, month = 3, day = 1\<rparr> = Inr \<lparr>year = 2024, month = 2, day = 29\<rparr> \<and>
   isoformat \<lparr>year = 2024, month = 2, day = 29\<rparr> = ''2024-02-29'' \<and>
   update_streak \<lparr>year = 2024, month = 3, day = 1\<rparr> (fresh_progress\<lparr>streak := 4, last_played := ''2024-02-29''\<rparr>)
     = Inr (fresh_progress\<lparr>streak := 5, last_played := ''2024-03-01''\<rparr>) \<and>
   valid_date \<lparr>year = 2024, month = 2, day = 27\<rparr> \<and>
   date_before \<lparr>year = 2024, month = 2, day = 27\<rparr> \<lparr>year = 2024, month = 2, day = 29\<rparr> \<and>
   update_streak \<lparr>year = 2024, month = 3, day = 1\<rparr> (fresh_progress\<lparr>streak := 4, last_played := ''2024-02-27''\<rparr>)
     = Inr (fresh_progress\<lparr>streak := 1, last_played := ''2024-03-01''\<rparr>) \<and>
   update_streak \<lparr>year = 2024, month = 3, day = 1\<rparr> (fresh_progress\<lparr>streak := 4, last_played := ''2024-03-01''\<rparr>)
     = Inr (fresh_progress\<lparr>streak := 4, last_played := ''2024-03-01''\<rparr>) \<and>
   update_streak \<lparr>year = 2024, month = 3, day = 1\<rparr> fresh_progress
     = Inr (fresh_progress\<lparr>streak := 1, last_played := ''2024-03-01''\<rparr>)"
proof -
  let ?t = "\<lparr>year = 2024, month = 3, day = 1\<rparr>"
  let ?y = "\<lparr>year = 2024, month = 2, day = 29\<rparr>"
  let ?d = "\<lparr>year = 2024, month = 2, day = 27\<rparr>"
  have v: "valid_date ?t" by (simp add: valid_date_def days_in_month_def)
  have m: "minus_one_day ?t = Inr ?y"
    by (simp add: minus_one_day_def days_in_month_def is_leap_def)
  have it: "isoformat ?t = ''2024-03-01''" by code_simp
  have iy: "isoformat ?y = ''2024-02-29''" by code_simp
  have id: "isoformat ?d = ''2024-02-27''" by code_simp
  have vd: "valid_date ?d" by (simp add: valid_date_def days_in_month_def is_leap_def)
  have bd: "date_before ?d ?y" by (simp add: date_before_def)
  have 1: "update_streak ?t (fresh_progress\<lparr>streak := 4, last_played := ''2024-02-29''\<rparr>)
     = Inr (fresh_progress\<lparr>streak := 5, last_played := ''2024-03-01''\<rparr>)"
    using update_streak_cases [OF v m, of "fresh_progress\<lparr>streak := 4, last_played := ''2024-02-29''\<rparr>" ?d, unfolded it iy id]
    by simp
  have 2: "update_streak ?t (fresh_progress\<lparr>streak := 4, last_played := ''2024-02-27''\<rparr>)
     = Inr (fresh_progress\<lparr>streak := 1, last_played := ''2024-03-01''\<rparr>)"
    using update_streak_cases [OF v m, of "fresh_progress\<lparr>streak := 4, last_played := ''2024-02-27''\<rparr>" ?d, unfolded it iy id] vd bd
    by simp
  have 3: "update_streak ?t (fresh_progress\<lparr>streak := 4, last_played := ''2024-03-01''\<rparr>)
     = Inr (fresh_progress\<lparr>streak := 4, last_played := ''2024-03-01''\<rparr>)"
    using update_streak_cases [OF v m, of "fresh_progress\<lparr>streak := 4, last_played := ''2024-03-01''\<rparr>" ?d, unfolded it iy id]
    by simp
  have 4: "update_streak ?t fresh_progress
     = Inr (fresh_progress\<lparr>streak := 1, last_played := ''2024-03-01''\<rparr>)"
    using update_streak_cases [OF v m, of fresh_progress ?d, unfolded it iy id]
    by (simp add: fresh_progress_def)
  show ?thesis
    using v m iy vd bd 1 2 3 4 by blast
qed

section \<open>Properties of the matching\<close>

lemma str_replace_concat_map:
  "str_replace old new (concat (map f s)) = concat (map (\<lambda>c. str_replace old new (f c)) s)"
  by (induction s) (simp_all add: str_replace_def)

lemma str_replace_single:
  "str_replace old new s = concat (map (\<lambda>c. str_replace old new [c]) s)"
  by (simp add: str_replace_def)

lemma lower_chr_idem: "lower_chr (lower_chr c) = lower_chr c"
  by (simp add: lower_chr_def Let_def)

lemma lower_chr_not_upper_umlaut:
  "lower_chr c \<noteq> CHR 0xDC" "lower_chr c \<noteq> CHR 0xD6" "lower_chr c \<noteq> CHR 0xC4"
proof -
  have *: "(of_char (lower_chr c) :: nat) \<noteq> 0xDC \<and> (of_char (lower_chr c) :: nat) \<noteq> 0xD6
     \<and> (of_char (lower_chr c) :: nat) \<noteq> 0xC4"
    by (auto simp: lower_chr_def Let_def)
  show "lower_chr c \<noteq> CHR 0xDC" "lower_chr c \<noteq> CHR 0xD6" "lower_chr c \<noteq> CHR 0xC4"
    using * by auto
qed

lemma lowered_lower_chr: "lowered (lower_chr c)"
  by (simp add: lowered_def lower_chr_idem lower_chr_not_upper_umlaut)

lemma replace_chain_char:
  "c \<noteq> CHR 0xDC \<Longrightarrow> c \<noteq> CHR 0xD6 \<Longrightarrow> c \<noteq> CHR 0xC4 \<Longrightarrow>
   str_replace (CHR 0xDF) ''ss''
     (str_replace (CHR 0xC4) ''a'' (str_replace (CHR 0xD6) ''o'' (str_replace (CHR 0xDC) ''u''
       (str_replace (CHR 0xE4) ''a'' (str_replace (CHR 0xF6) ''o'' (str_replace (CHR 0xFC) ''u'' [c]))))))
   = spec_base_letters c"
  by (simp add: str_replace_def spec_base_letters_def)

lemma replace_chain:
  assumes "\<forall>c \<in> set t. c \<noteq> CHR 0xDC \<and> c \<noteq> CHR 0xD6 \<and> c \<noteq> CHR 0xC4"
  shows "str_replace (CHR 0xDF) ''ss''
     (str_replace (CHR 0xC4) ''a'' (str_replace (CHR 0xD6) ''o'' (str_replace (CHR 0xDC) ''u''
       (str_replace (CHR 0xE4) ''a'' (str_replace (CHR 0xF6) ''o'' (str_replace (CHR 0xFC) ''u'' t))))))
   = concat (map spec_base_letters t)"
  using assms
proof (induction t)
  case Nil
  then show ?case by (simp add: str_replace_def)
next
  case (Cons c t)
  have app: "\<And>old new xs ys. str_replace old new (xs @ ys) = str_replace old new xs @ str_replace old new ys"
    by (simp add: str_replace_def)
  have split: "c # t = [c] @ t" by simp
  show ?case
    using Cons replace_chain_char [of c]
    apply (subst split)
    apply (simp only: app)
    apply simp
    done
qed

lemma set_str_strip: "set (str_strip s) \<subseteq> set s"
proof -
  have "set (dropWhile isspace (rev (dropWhile isspace s))) \<subseteq> set (rev (dropWhile isspace s))"
    by (rule set_dropWhileD [THEN subsetI]) 
  also have "\<dots> \<subseteq> set s"
    using set_dropWhileD [of _ isspace s] by auto
  finally show ?thesis by (simp add: str_strip_def)
qed

lemma lowered_strip_lower: "c \<in> set (str_strip (str_lower s)) \<Longrightarrow> lowered c"
  using set_str_strip [of "str_lower s"] by (auto simp: str_lower_def lowered_lower_chr)

lemma normalize_german_eq:
  "normalize_german s = concat (map spec_base_letters (str_strip (str_lower s)))"
proof -
  have "\<forall>c \<in> set (str_strip (str_lower s)). c \<noteq> CHR 0xDC \<and> c \<noteq> CHR 0xD6 \<and> c \<noteq> CHR 0xC4"
    using lowered_strip_lower [of _ s] by (auto simp: lowered_def)
  then show ?thesis
    by (simp add: normalize_german_def Let_def replace_chain)
qed

lemma dropWhile_hd_id: "t = [] \<or> \<not> P (hd t) \<Longrightarrow> dropWhile P t = t"
  by (cases t) auto

lemma trimmed_str_strip: "trimmed (str_strip s)"
proof -
  let ?a = "dropWhile isspace s"
  let ?b = "dropWhile isspace (rev ?a)"
  have b: "?b = [] \<or> \<not> isspace (hd ?b)"
    using hd_dropWhile [of isspace "rev ?a"] by blast
  show ?thesis
  proof (cases "?b = []")
    case True
    then show ?thesis by (simp add: trimmed_def str_strip_def)
  next
    case False
    with b have "\<not> isspace (hd ?b)" by blast
    then have last_ok: "\<not> isspace (last (rev ?b))"
      by (simp add: last_rev)
    have "?a \<noteq> []"
    proof
      assume e: "?a = []"
      have "?b = []" by (simp only: e rev.simps dropWhile.simps)
      with False show False by blast
    qed
    then have ha: "\<not> isspace (hd ?a)"
      using hd_dropWhile [of isspace s] by blast
    obtain k where k: "rev ?a = takeWhile isspace (rev ?a) @ ?b"
      by simp
    have "?a = rev ?b @ rev (takeWhile isspace (rev ?a))"
      by (metis k rev_append rev_rev_ident)
    then have "hd ?a = hd (rev ?b)"
      using False by (metis hd_append2 rev_is_Nil_conv)
    then show ?thesis
      using ha last_ok by (simp add: trimmed_def str_strip_def)
  qed
qed

lemma str_strip_trimmed: "trimmed t \<Longrightarrow> str_strip t = t"
proof (cases "t = []")
  case True
  then show ?thesis by (simp add: str_strip_def)
next
  case False
  assume "trimmed t"
  with False have h: "\<not> isspace (hd t)" and l: "\<not> isspace (last t)"
    by (simp_all add: trimmed_def)
  have 1: "dropWhile isspace t = t"
    using h by (simp add: dropWhile_hd_id)
  have "hd (rev t) = last t" using False by (simp add: hd_rev)
  then have 2: "dropWhile isspace (rev t) = rev t"
    using l by (simp add: dropWhile_hd_id)
  show ?thesis by (simp add: str_strip_def 1 2)
qed

lemma spec_base_letters_nonempty: "spec_base_letters c \<noteq> []"
  by (simp add: spec_base_letters_def)

lemma spec_base_letters_nonspace:
  "\<not> isspace c \<Longrightarrow> \<not> isspace (hd (spec_base_letters c)) \<and> \<not> isspace (last (spec_base_letters c))"
  by (simp add: spec_base_letters_def isspace_def)

lemma hd_concat_letters: "t \<noteq> [] \<Longrightarrow> hd (concat (map spec_base_letters t)) = hd (spec_base_letters (hd t))"
  by (cases t) (simp_all add: spec_base_letters_nonempty)

lemma last_concat_letters: "t \<noteq> [] \<Longrightarrow> last (concat (map spec_base_letters t)) = last (spec_base_letters (last t))"
proof (induction t)
  case Nil
  then show ?case by simp
next
  case (Cons c t)
  show ?case
  proof (cases "t = []")
    case True
    then show ?thesis by simp
  next
    case False
    then have "concat (map spec_base_letters t) \<noteq> []"
      by (cases t) (simp_all add: spec_base_letters_nonempty)
    then show ?thesis using Cons False by simp
  qed
qed

lemma trimmed_spec_base_letters: "trimmed t \<Longrightarrow> trimmed (concat (map spec_base_letters t))"
proof (cases "t = []")
  case True
  then show ?thesis by (simp add: trimmed_def)
next
  case False
  assume "trimmed t"
  with False have "\<not> isspace (hd t)" "\<not> isspace (last t)"
    by (simp_all add: trimmed_def)
  then show ?thesis
    using False spec_base_letters_nonspace
    by (simp add: trimmed_def hd_concat_letters last_concat_letters)
qed

lemma spec_base_letters_fixed:
  assumes "lowered c" "x \<in> set (spec_base_letters c)"
  shows "lowered x \<and> spec_base_letters x = [x]"
proof -
  have known: "lowered CHR ''u''" "lowered CHR ''o''" "lowered CHR ''a''" "lowered CHR ''s''"
    by (simp_all add: lowered_def lower_chr_def)
  show ?thesis
    using assms known by (auto simp: spec_base_letters_def split: if_splits)
qed

lemma normalize_german_chars:
  assumes "x \<in> set (normalize_german s)"
  shows "lowered x \<and> spec_base_letters x = [x]"
proof -
  from assms obtain c where "c \<in> set (str_strip (str_lower s))" "x \<in> set (spec_base_letters c)"
    by (auto simp: normalize_german_eq)
  then show ?thesis
    using lowered_strip_lower spec_base_letters_fixed by blast
qed

lemma concat_map_single: "\<forall>x \<in> set t. f x = [x] \<Longrightarrow> concat (map f t) = t"
  by (induction t) simp_all

text \<open>
  Claim C9. Normalisation is idempotent: normalising a text that is already normalised
  gives the same text, for every text over the code points U+0000 to U+00FF.
\<close>

theorem normalize_german_idempotent:
  "normalize_german (normalize_german s) = normalize_german s"
proof -
  let ?n = "normalize_german s"
  have low: "str_lower ?n = ?n"
    using normalize_german_chars [of _ s] by (simp add: str_lower_def lowered_def map_idI)
  have "trimmed ?n"
    by (simp add: normalize_german_eq trimmed_spec_base_letters trimmed_str_strip)
  then have strip: "str_strip ?n = ?n"
    by (rule str_strip_trimmed)
  have "normalize_german ?n = concat (map spec_base_letters ?n)"
    by (simp add: normalize_german_eq [of ?n] low strip)
  also have "\<dots> = ?n"
    using normalize_german_chars [of _ s] by (simp add: concat_map_single)
  finally show ?thesis .
qed

text \<open>
  Claim C3, as the code has it. \<^verbatim>\<open>normalize_german\<close> lower-cases, trims and then
  rewrites each letter by the fixed table (u, o, a with diaeresis to u, o, a; sharp s
  to ss) and changes nothing else. In Python's notation for the texts:
  \<^verbatim>\<open>"M\u00fcller"\<close> and \<^verbatim>\<open>"MULLER"\<close> normalise to the same text,
  \<^verbatim>\<open>"M\u00fcller"\<close> and \<^verbatim>\<open>"Mueller"\<close> to different ones,
  \<^verbatim>\<open>"f\u00fcr"\<close> and \<^verbatim>\<open>"fuer"\<close> to different ones,
  \<^verbatim>\<open>"f\u00fcr"\<close> and \<^verbatim>\<open>"fur"\<close> to the same one.
\<close>

theorem normalize_german_table:
  "normalize_german s = concat (map spec_base_letters (str_strip (str_lower s))) \<and>
   normalize_german (''M'' @ [CHR 0xFC] @ ''ller'') = normalize_german ''MULLER'' \<and>
   normalize_german (''M'' @ [CHR 0xFC] @ ''ller'') \<noteq> normalize_german ''Mueller'' \<and>
   normalize_german (''f'' @ [CHR 0xFC] @ ''r'') \<noteq> normalize_german ''fuer'' \<and>
   normalize_german (''f'' @ [CHR 0xFC] @ ''r'') = normalize_german ''fur''"
proof -
  have 1: "normalize_german (''M'' @ [CHR 0xFC] @ ''ller'') = ''muller''" by code_simp
  have 2: "normalize_german ''MULLER'' = ''muller''" by code_simp
  have 3: "normalize_german ''Mueller'' = ''mueller''" by code_simp
  have 4: "normalize_german (''f'' @ [CHR 0xFC] @ ''r'') = ''fur''" by code_simp
  have 5: "normalize_german ''fuer'' = ''fuer''" by code_simp
  have 6: "normalize_german ''fur'' = ''fur''" by code_simp
  show ?thesis
    unfolding 1 2 3 4 5 6 by (simp add: normalize_german_eq)
qed

text \<open>
  The first example of claim C3 as the specification states it (\<^verbatim>\<open>"M\u00fcller"\<close> and
  \<^verbatim>\<open>"MULLER"\<close> do not match) fails: both normalise to \<^verbatim>\<open>"muller"\<close>.
\<close>

theorem normalize_german_case_counterexample:
  "normalize_german (''M'' @ [CHR 0xFC] @ ''ller'') = normalize_german ''MULLER''"
  by code_simp

section \<open>Properties of the learned-word counts\<close>

lemma card_map_of_filter:
  assumes "distinct (map fst xs)"
  shows "card {k. \<exists>e. map_of xs k = Some e \<and> P e} = length (filter (\<lambda>(k, e). P e) xs)"
  using assms
proof (induction xs)
  case Nil
  then show ?case by simp
next
  case (Cons x xs)
  obtain k e where x: "x = (k, e)" by (cases x)
  have notin: "k \<notin> fst ` set xs" and d: "distinct (map fst xs)"
    using Cons.prems x by simp_all
  have none: "map_of xs k = None"
    using notin by (simp add: map_of_eq_None_iff)
  let ?S = "{j. \<exists>e'. map_of xs j = Some e' \<and> P e'}"
  have fin: "finite ?S"
  proof (rule finite_subset)
    show "?S \<subseteq> dom (map_of xs)" by auto
    show "finite (dom (map_of xs))" by (rule finite_dom_map_of)
  qed
  have kS: "k \<notin> ?S" using none by simp
  have set_eq: "{j. \<exists>e'. map_of ((k, e) # xs) j = Some e' \<and> P e'} = (if P e then insert k ?S else ?S)"
    using none by auto
  have "card {j. \<exists>e'. map_of ((k, e) # xs) j = Some e' \<and> P e'} =
      (if P e then Suc (card ?S) else card ?S)"
    unfolding set_eq using fin kS by (simp del: map_of.simps)
  also have "\<dots> = length (filter (\<lambda>(k, e). P e) ((k, e) # xs))"
    using Cons.IH [OF d] by simp
  finally show ?case unfolding x .
qed

lemma count_nth:
  "card {i. i < length ws \<and> Q (ws ! i)} = length (filter Q ws)"
proof -
  have "length (filter Q ws) = card {i. i < length ws \<and> Q (ws ! i)}"
    by (rule length_filter_conv_card)
  then show ?thesis by simp
qed

lemma sum_ones: "sum_list (map (\<lambda>_. 1::int) xs) = int (length xs)"
  by (induction xs) simp_all

text \<open>
  Claim C10. A word counts as learned exactly when its mastery is at least 3:
  \<^verbatim>\<open>words_learned_count\<close> is the number of keys of the dictionary whose stored object
  has mastery at least 3, and \<^verbatim>\<open>category_completion\<close> is 0 for an empty word list
  and otherwise the number of positions of the list whose word has mastery at least
  3, divided by the length of the list.
\<close>

theorem learned_counts:
  "(distinct (map fst (words p)) \<longrightarrow>
      words_learned_count p =
        int (card {k. \<exists>e. map_of (words p) k = Some e \<and> 3 \<le> mastery e})) \<and>
   category_completion p category [] = 0 \<and>
   (ws \<noteq> [] \<longrightarrow>
      category_completion p category ws =
        real (card {i. i < length ws \<and> 3 \<le> get_mastery p category (de (ws ! i))}) /
        real (length ws))"
proof -
  have ones: "\<And>xs :: (string \<times> entry) list. sum_list (map (\<lambda>(k, e). 1::int) xs) = int (length xs)"
    by (induct_tac xs) auto
  have 1: "distinct (map fst (words p)) \<longrightarrow>
      words_learned_count p =
        int (card {k. \<exists>e. map_of (words p) k = Some e \<and> 3 \<le> mastery e})"
  proof
    assume d: "distinct (map fst (words p))"
    have "words_learned_count p = int (length (filter (\<lambda>(k, e). 3 \<le> mastery e) (words p)))"
      by (simp only: words_learned_count_def ones)
    also have "\<dots> = int (card {k. \<exists>e. map_of (words p) k = Some e \<and> 3 \<le> mastery e})"
      by (simp only: card_map_of_filter [OF d])
    finally show "words_learned_count p =
        int (card {k. \<exists>e. map_of (words p) k = Some e \<and> 3 \<le> mastery e})" .
  qed
  have 2: "category_completion p category [] = 0"
    by (simp add: category_completion_def)
  have 3: "ws \<noteq> [] \<longrightarrow>
      category_completion p category ws =
        real (card {i. i < length ws \<and> 3 \<le> get_mastery p category (de (ws ! i))}) /
        real (length ws)"
    by (simp add: category_completion_def sum_ones
          count_nth [of ws "\<lambda>w. 3 \<le> get_mastery p category (de w)"])
  show ?thesis using 1 2 3 by blast
qed

theorem learned_counts_witness:
  "distinct (map fst (words (fresh_progress\<lparr>words :=
      [(''nouns:Hund'', \<lparr>mastery = 3, correct = 4, wrong = 1\<rparr>),
       (''nouns:Katze'', \<lparr>mastery = 2, correct = 2, wrong = 0\<rparr>)]\<rparr>))) \<and>
   [\<lparr>de = ''Hund'', en = ''dog''\<rparr>, \<lparr>de = ''Katze'', en = ''cat''\<rparr>] \<noteq> [] \<and>
   int (card {k. \<exists>e. map_of (words (fresh_progress\<lparr>words :=
      [(''nouns:Hund'', \<lparr>mastery = 3, correct = 4, wrong = 1\<rparr>),
       (''nouns:Katze'', \<lparr>mastery = 2, correct = 2, wrong = 0\<rparr>)]\<rparr>)) k = Some e \<and> 3 \<le> mastery e}) = 1 \<and>
   real (card {i. i < length [\<lparr>de = ''Hund'', en = ''dog''\<rparr>, \<lparr>de = ''Katze'', en = ''cat''\<rparr>] \<and>
      3 \<le> get_mastery (fresh_progress\<lparr>words :=
      [(''nouns:Hund'', \<lparr>mastery = 3, correct = 4, wrong = 1\<rparr>),
       (''nouns:Katze'', \<lparr>mastery = 2, correct = 2, wrong = 0\<rparr>)]\<rparr>) ''nouns''
        (de ([\<lparr>de = ''Hund'', en = ''dog''\<rparr>, \<lparr>de = ''Katze'', en = ''cat''\<rparr>] ! i))}) /
    real (length [\<lparr>de = ''Hund'', en = ''dog''\<rparr>, \<lparr>de = ''Katze'', en = ''cat''\<rparr>]) = 1 / 2"
proof -
  let ?p = "fresh_progress\<lparr>words :=
      [(''nouns:Hund'', \<lparr>mastery = 3, correct = 4, wrong = 1\<rparr>),
       (''nouns:Katze'', \<lparr>mastery = 2, correct = 2, wrong = 0\<rparr>)]\<rparr>"
  let ?ws = "[\<lparr>de = ''Hund'', en = ''dog''\<rparr>, \<lparr>de = ''Katze'', en = ''cat''\<rparr>]"
  have d: "distinct (map fst (words ?p))" by simp
  have n: "?ws \<noteq> []" by simp
  have w: "words_learned_count ?p = 1"
    by (simp add: words_learned_count_def)
  have c: "category_completion ?p ''nouns'' ?ws = 1 / 2"
    by (simp add: category_completion_def get_mastery_def get_word_key_def)
  note t = learned_counts [of ?p "''nouns''" ?ws]
  have 1: "words_learned_count ?p =
        int (card {k. \<exists>e. map_of (words ?p) k = Some e \<and> 3 \<le> mastery e})"
    using t d by blast
  have 2: "category_completion ?p ''nouns'' ?ws =
        real (card {i. i < length ?ws \<and> 3 \<le> get_mastery ?p ''nouns'' (de (?ws ! i))}) /
        real (length ?ws)"
    using t n by blast
  have a: "int (card {k. \<exists>e. map_of (words ?p) k = Some e \<and> 3 \<le> mastery e}) = 1"
    by (rule trans [OF 1 [symmetric] w])
  have b: "real (card {i. i < length ?ws \<and> 3 \<le> get_mastery ?p ''nouns'' (de (?ws ! i))}) /
        real (length ?ws) = 1 / 2"
    by (rule trans [OF 2 [symmetric] c])
  show ?thesis
    using d n a b by blast
qed

section \<open>Properties of the weighted selection\<close>

lemma sample_loop_stop:
  "\<not> (int (length result) < n \<and> int attempts < n * 20) \<Longrightarrow>
   sample_loop draw ws n chosen result attempts = (chosen, result)"
  by (subst sample_loop.simps) auto

lemma sample_loop_new:
  "int (length result) < n \<and> int attempts < n * 20 \<Longrightarrow> draw attempts \<notin> chosen \<Longrightarrow>
   sample_loop draw ws n chosen result attempts =
     sample_loop draw ws n (insert (draw attempts) chosen)
       (result @ [(draw attempts, ws ! draw attempts)]) (Suc attempts)"
  by (subst sample_loop.simps) (simp add: Let_def)

lemma sample_loop_seen:
  "int (length result) < n \<and> int attempts < n * 20 \<Longrightarrow> draw attempts \<in> chosen \<Longrightarrow>
   sample_loop draw ws n chosen result attempts =
     sample_loop draw ws n chosen result (Suc attempts)"
  by (subst sample_loop.simps) (simp add: Let_def)

lemma sample_loop_inv:
  assumes "\<forall>k. draw k < length ws" "loop_inv ws chosen result" "int (length result) \<le> n"
    and "sample_loop draw ws n chosen result attempts = (chosen', result')"
  shows "loop_inv ws chosen' result' \<and> int (length result') \<le> n"
  using assms
proof (induction draw ws n chosen result attempts rule: sample_loop.induct)
  case (1 draw ws n chosen result attempts)
  show ?case
  proof (cases "int (length result) < n \<and> int attempts < n * 20")
    case False
    then have "(chosen', result') = (chosen, result)"
      using "1.prems"(4) sample_loop_stop [of result n attempts draw ws chosen, OF False] by simp
    then show ?thesis using "1.prems" by simp
  next
    case go: True
    let ?idx = "draw attempts"
    show ?thesis
    proof (cases "?idx \<in> chosen")
      case True
      have "sample_loop draw ws n chosen result (Suc attempts) = (chosen', result')"
        using "1.prems"(4) sample_loop_seen [of result n attempts draw chosen ws, OF go True] by simp
      then show ?thesis
        using "1.IH"(2) [OF go refl _ "1.prems"(1,2,3)] True
        by simp
    next
      case False
      have run: "sample_loop draw ws n (insert ?idx chosen) (result @ [(?idx, ws ! ?idx)]) (Suc attempts)
           = (chosen', result')"
        using "1.prems"(4) sample_loop_new [of result n attempts draw chosen ws, OF go False] by simp
      have inv': "loop_inv ws (insert ?idx chosen) (result @ [(?idx, ws ! ?idx)])"
        using "1.prems"(1,2) False by (auto simp: loop_inv_def)
      have len': "int (length (result @ [(?idx, ws ! ?idx)])) \<le> n"
        using go by simp
      show ?thesis
        using "1.IH"(1) [OF go refl False "1.prems"(1) inv' len' run]
        by simp
    qed
  qed
qed

lemma get_mastery_bounds:
  assumes "mastery_ok p"
  shows "0 \<le> get_mastery p category w \<and> get_mastery p category w \<le> 5"
proof (cases "map_of (words p) (get_word_key category w)")
  case None
  then show ?thesis by (simp add: get_mastery_def)
next
  case (Some e)
  then have "(get_word_key category w, e) \<in> set (words p)" by (rule map_of_SomeD)
  then have "0 \<le> mastery e \<and> mastery e \<le> 5"
    using assms by (auto simp: mastery_ok_def list_all_iff)
  then show ?thesis using Some by (simp add: get_mastery_def)
qed

lemma word_weights_total:
  assumes "mastery_ok p" "ws \<noteq> []"
  shows "0 < sum_list (word_weights p category ws)"
proof -
  have "int (length ws) \<le> sum_list (word_weights p category ws)"
  proof (induction ws)
    case Nil
    then show ?case by (simp add: word_weights_def)
  next
    case (Cons w ws)
    have "1 \<le> 5 - get_mastery p category (de w) + 1"
      using get_mastery_bounds [OF assms(1), of category "de w"] by simp
    then show ?case using Cons by (simp add: word_weights_def)
  qed
  moreover have "0 < int (length ws)" using assms(2) by simp
  ultimately show ?thesis by linarith
qed

lemma map_fst_filter_enumerate:
  "map fst (filter (\<lambda>(i, w). Q i) (enumerate 0 ws)) = filter Q [0..<length ws]"
proof -
  have e: "(\<lambda>(i, w). Q i) = Q \<circ> fst" by auto
  have "filter Q [0..<length ws] = filter Q (map fst (enumerate 0 ws))" by simp
  also have "\<dots> = map fst (filter (Q \<circ> fst) (enumerate 0 ws))" by (rule filter_map)
  finally show ?thesis by (simp only: e)
qed

lemma remaining_props:
  assumes "loop_inv ws chosen result"
  defines "remaining \<equiv> filter (\<lambda>(i, w). i \<notin> chosen) (enumerate 0 ws)"
  shows "distinct (map fst remaining)"
    and "fst ` set remaining \<inter> chosen = {}"
    and "\<forall>(i, w) \<in> set remaining. i < length ws \<and> w = ws ! i"
    and "length remaining = length ws - length result"
proof -
  have m: "map fst remaining = filter (\<lambda>i. i \<notin> chosen) [0..<length ws]"
    unfolding remaining_def by (rule map_fst_filter_enumerate)
  show "distinct (map fst remaining)" by (simp add: m)
  have "set (map fst remaining) \<inter> chosen = {}" unfolding m by auto
  then show "fst ` set remaining \<inter> chosen = {}" by simp
  show "\<forall>(i, w) \<in> set remaining. i < length ws \<and> w = ws ! i"
    unfolding remaining_def by (auto simp: in_set_enumerate_eq)
  have sub: "chosen \<subseteq> {0..<length ws}"
    using assms(1) by (auto simp: loop_inv_def)
  have "card (set (map fst result)) = length (map fst result)"
    using assms(1) by (intro distinct_card) (simp add: loop_inv_def)
  then have cc: "card chosen = length result"
    using assms(1) by (simp add: loop_inv_def)
  have "length remaining = length (map fst remaining)" by simp
  also have "\<dots> = card (set (filter (\<lambda>i. i \<notin> chosen) [0..<length ws]))"
    unfolding m by (rule distinct_card [symmetric]) simp
  also have "set (filter (\<lambda>i. i \<notin> chosen) [0..<length ws]) = {0..<length ws} - chosen"
    by auto
  also have "card ({0..<length ws} - chosen) = length ws - card chosen"
    using sub by (simp add: card_Diff_subset finite_subset [OF sub])
  finally show "length remaining = length ws - length result" by (simp add: cc)
qed

lemma pad_props:
  assumes inv: "loop_inv ws chosen result"
    and sh: "mset sh = mset (filter (\<lambda>(i, w). i \<notin> chosen) (enumerate 0 ws))"
    and len: "length result \<le> m" "m \<le> length ws"
  shows "length (result @ take (m - length result) sh) = m"
    and "distinct (map fst (result @ take (m - length result) sh))"
    and "\<forall>(i, w) \<in> set (result @ take (m - length result) sh). i < length ws \<and> w = ws ! i"
proof -
  let ?rem = "filter (\<lambda>(i, w). i \<notin> chosen) (enumerate 0 ws)"
  note r = remaining_props [OF inv]
  have set_sh: "set sh = set ?rem" using sh by (rule mset_eq_setD)
  have "size (mset sh) = size (mset ?rem)" by (simp only: sh)
  then have "length sh = length ?rem" by (simp only: size_mset)
  then have len_sh: "length sh = length ws - length result"
    by (simp only: r(4))
  have "mset (map fst sh) = mset (map fst ?rem)" by (simp only: mset_map sh)
  then have dist_sh: "distinct (map fst sh)"
    using r(1) mset_eq_imp_distinct_iff by blast
  show "length (result @ take (m - length result) sh) = m"
    using len len_sh by simp
  have "set (take (m - length result) sh) \<subseteq> set sh" by (rule set_take_subset)
  then have tk: "set (take (m - length result) sh) \<subseteq> set ?rem"
    by (simp only: set_sh)
  have dist_tk: "distinct (map fst (take (m - length result) sh))"
    using dist_sh by (simp add: take_map [symmetric] distinct_take)
  have disj: "fst ` set result \<inter> fst ` set (take (m - length result) sh) = {}"
    using tk r(2) inv by (auto simp: loop_inv_def)
  show "distinct (map fst (result @ take (m - length result) sh))"
    using inv dist_tk disj by (simp add: loop_inv_def)
  show "\<forall>(i, w) \<in> set (result @ take (m - length result) sh). i < length ws \<and> w = ws ! i"
    using inv tk r(3) by (auto simp: loop_inv_def)
qed

lemma weighted_sample_indexed_props:
  assumes ne: "ws \<noteq> []" and ok: "mastery_ok p" and n0: "0 \<le> n"
    and dr: "\<forall>k. draw k < length ws" and sh: "is_shuffle shuffle"
  shows "\<exists>r. weighted_sample_indexed draw shuffle p category ws n = Inr r \<and>
             length r = min (nat n) (length ws) \<and> distinct (map fst r) \<and>
             (\<forall>(i, w) \<in> set r. i < length ws \<and> w = ws ! i)"
proof -
  define n' where "n' = min n (int (length ws))"
  obtain chosen result where loop: "sample_loop draw ws n' {} [] 0 = (chosen, result)"
    by (cases "sample_loop draw ws n' {} [] 0")
  have n'0: "0 \<le> n'" using n0 by (simp add: n'_def)
  have nat_n': "nat n' = min (nat n) (length ws)" using n0 by (simp add: n'_def)
  have "loop_inv ws {} []" by (simp add: loop_inv_def)
  then have inv: "loop_inv ws chosen result" and le: "int (length result) \<le> n'"
    using sample_loop_inv [OF dr _ _ loop] n'0 by simp_all
  have tot: "sum_list (word_weights p category ws) \<noteq> 0"
    using word_weights_total [OF ok ne, of category] by simp
  let ?rem = "shuffle (filter (\<lambda>(i, w). i \<notin> chosen) (enumerate 0 ws))"
  have eval: "weighted_sample_indexed draw shuffle p category ws n =
      (if int (length result) < n'
       then Inr (result @ take (nat (n' - int (length result))) ?rem)
       else Inr result)"
    using ne tot loop by (simp add: weighted_sample_indexed_def Let_def n'_def [symmetric])
  show ?thesis
  proof (cases "int (length result) < n'")
    case True
    have k: "nat (n' - int (length result)) = nat n' - length result" by simp
    have m1: "length result \<le> nat n'" using le by simp
    have m2: "nat n' \<le> length ws" by (simp add: nat_n')
    have ms: "mset ?rem = mset (filter (\<lambda>(i, w). i \<notin> chosen) (enumerate 0 ws))"
      using sh by (simp add: is_shuffle_def)
    note pp = pad_props [OF inv ms m1 m2]
    show ?thesis
      using True pp by (simp only: eval k if_True nat_n' [symmetric]) blast
  next
    case False
    then have "int (length result) = n'" using le by simp
    then have "length result = nat n'" by simp
    then show ?thesis
      using False inv by (simp add: eval nat_n' [symmetric] loop_inv_def)
  qed
qed

text \<open>
  Claim C2. For a non-empty word list, a progress document whose mastery values lie in
  \<open>[0, 5]\<close>, \<open>n \<ge> 0\<close>, every sequence of drawn indices and every shuffle,
  \<^verbatim>\<open>weighted_sample\<close> returns (the loop is bounded by \<open>n * 20\<close> rounds, so the
  function is total) a list of exactly \<open>min n (length words)\<close> words whose indices
  in the word list are pairwise distinct.
\<close>

theorem weighted_sample_length_distinct:
  assumes "ws \<noteq> []" and "mastery_ok p" and "0 \<le> n"
    and "\<forall>k. draw k < length ws" and "is_shuffle shuffle"
  shows "\<exists>r. weighted_sample draw shuffle p category ws n = Inr (map snd r) \<and>
             length (map snd r) = min (nat n) (length ws) \<and> distinct (map fst r) \<and>
             (\<forall>(i, w) \<in> set r. i < length ws \<and> w = ws ! i)"
proof -
  obtain r where r: "weighted_sample_indexed draw shuffle p category ws n = Inr r"
    "length r = min (nat n) (length ws)" "distinct (map fst r)"
    "\<forall>(i, w) \<in> set r. i < length ws \<and> w = ws ! i"
    using weighted_sample_indexed_props [OF assms] by blast
  have "weighted_sample draw shuffle p category ws n = Inr (map snd r)"
    by (simp add: weighted_sample_def r(1))
  then show ?thesis using r(2,3,4) by auto
qed

theorem weighted_sample_length_distinct_witness:
  "[\<lparr>de = ''Hund'', en = ''dog''\<rparr>, \<lparr>de = ''Katze'', en = ''cat''\<rparr>,
    \<lparr>de = ''Maus'', en = ''mouse''\<rparr>] \<noteq> [] \<and>
   mastery_ok fresh_progress \<and> (0::int) \<le> 3 \<and>
   (\<forall>k::nat. (0::nat) < length [\<lparr>de = ''Hund'', en = ''dog''\<rparr>, \<lparr>de = ''Katze'', en = ''cat''\<rparr>,
    \<lparr>de = ''Maus'', en = ''mouse''\<rparr>]) \<and>
   is_shuffle (rev :: (nat \<times> word) list \<Rightarrow> (nat \<times> word) list) \<and>
   (\<exists>r :: (nat \<times> word) list. weighted_sample (\<lambda>k. 0) rev fresh_progress ''nouns''
          [\<lparr>de = ''Hund'', en = ''dog''\<rparr>, \<lparr>de = ''Katze'', en = ''cat''\<rparr>,
           \<lparr>de = ''Maus'', en = ''mouse''\<rparr>] 3 = Inr (map snd r) \<and>
        length (map snd r) = 3 \<and> distinct (map fst r))"
proof -
  let ?ws = "[\<lparr>de = ''Hund'', en = ''dog''\<rparr>, \<lparr>de = ''Katze'', en = ''cat''\<rparr>,
    \<lparr>de = ''Maus'', en = ''mouse''\<rparr>]"
  have ne: "?ws \<noteq> []" by simp
  have ok: "mastery_ok fresh_progress" by (simp add: mastery_ok_def fresh_progress_def)
  have n0: "(0::int) \<le> 3" by simp
  have dr: "\<forall>k::nat. (0::nat) < length ?ws" by simp
  have sh: "is_shuffle (rev :: (nat \<times> word) list \<Rightarrow> (nat \<times> word) list)"
    by (simp add: is_shuffle_def)
  have len: "min (nat 3) (length ?ws) = 3" by simp
  have "\<exists>r. weighted_sample (\<lambda>k. 0) rev fresh_progress ''nouns'' ?ws 3 = Inr (map snd r) \<and>
        length (map snd r) = min (nat 3) (length ?ws) \<and> distinct (map fst r) \<and>
        (\<forall>(i, w) \<in> set r. i < length ?ws \<and> w = ?ws ! i)"
    by (rule weighted_sample_length_distinct) (rule ne ok n0 dr sh)+
  then have ex: "\<exists>r :: (nat \<times> word) list. weighted_sample (\<lambda>k. 0) rev fresh_progress ''nouns'' ?ws 3 = Inr (map snd r) \<and>
        length (map snd r) = 3 \<and> distinct (map fst r)"
    unfolding len by blast
  show ?thesis
    by (intro conjI ne ok n0 dr sh ex)
qed

section \<open>Properties of the multiple-choice sets\<close>

declare pad_choices.simps [simp del]

lemma pad_choices_full: "4 \<le> length choices \<Longrightarrow> pad_choices choices wrong_pool = (choices, wrong_pool)"
  by (subst pad_choices.simps) simp

lemma pad_choices_mset:
  "\<exists>xs. fst (pad_choices choices wrong_pool) = choices @ xs \<and> set xs \<subseteq> set wrong_pool"
proof (induction choices wrong_pool rule: pad_choices.induct)
  case (1 choices wrong_pool)
  show ?case
  proof (cases "length choices < 4 \<and> wrong_pool \<noteq> []")
    case False
    then have "pad_choices choices wrong_pool = (choices, wrong_pool)"
      by (subst pad_choices.simps) auto
    then show ?thesis by simp
  next
    case True
    then have step: "pad_choices choices wrong_pool =
        pad_choices (choices @ [last wrong_pool]) (butlast wrong_pool)"
      by (subst pad_choices.simps) simp
    obtain xs where xs: "fst (pad_choices (choices @ [last wrong_pool]) (butlast wrong_pool)) =
        (choices @ [last wrong_pool]) @ xs" "set xs \<subseteq> set (butlast wrong_pool)"
      using "1.IH" [OF True] by blast
    have "set (last wrong_pool # xs) \<subseteq> set wrong_pool"
      using xs(2) True by (auto dest: in_set_butlastD)
    then show ?thesis
      using xs(1) step by (intro exI [of _ "last wrong_pool # xs"]) simp
  qed
qed

lemma mset_take_subset: "mset (take n xs) \<subseteq># mset xs"
proof -
  have "mset xs = mset (take n xs) + mset (drop n xs)"
    by (metis append_take_drop_id mset_append)
  then show ?thesis by simp
qed

lemma count_list_mset_eq: "mset xs = mset ys \<Longrightarrow> count_list xs c = count_list ys c"
  by (metis count_mset)

lemma count_list_notin: "c \<notin> set xs \<Longrightarrow> count_list xs c = 0"
  by (induction xs) auto

lemma build_choices_general:
  assumes s1: "is_shuffle shuffle_pool" and s2: "is_shuffle shuffle_choices"
  shows "count_list (build_choices shuffle_pool shuffle_choices c column) c = 1 \<and>
         set (build_choices shuffle_pool shuffle_choices c column)
           \<subseteq> insert c (set (filter (\<lambda>x. x \<noteq> c) column))"
proof -
  let ?pool = "filter (\<lambda>x. x \<noteq> c) column"
  let ?p = "shuffle_pool ?pool"
  have mp: "mset ?p = mset ?pool" using s1 by (simp add: is_shuffle_def)
  then have sp: "set ?p = set ?pool" by (rule mset_eq_setD)
  then have cp: "c \<notin> set ?p" by simp
  obtain ch wp where pad: "pad_choices (c # take 3 ?p) ?p = (ch, wp)"
    by (cases "pad_choices (c # take 3 ?p) ?p")
  obtain xs where xs: "ch = (c # take 3 ?p) @ xs" "set xs \<subseteq> set ?p"
    using pad_choices_mset [of "c # take 3 ?p" ?p] pad by auto
  let ?r = "shuffle_choices ch"
  have mr: "mset ?r = mset ch" using s2 by (simp add: is_shuffle_def)
  have tail: "c \<notin> set (take 3 ?p @ xs)"
    using cp xs(2) by (auto dest: in_set_takeD)
  have cnt_ch: "count_list ch c = 1"
    using count_list_notin [OF tail] by (simp add: xs(1))
  have set_ch: "set ch \<subseteq> insert c (set ?pool)"
    using xs sp by (auto dest: in_set_takeD)
  have eval: "build_choices shuffle_pool shuffle_choices c column =
      (if length ?r < 2 then remdups (?r @ [c]) else ?r)"
    by (simp add: build_choices_def Let_def pad)
  show ?thesis
  proof (cases "length ?r < 2")
    case False
    have "count_list ?r c = 1" using count_list_mset_eq [OF mr] cnt_ch by simp
    moreover have "set ?r = set ch" using mr by (rule mset_eq_setD)
    ultimately show ?thesis using False set_ch by (simp add: eval)
  next
    case True
    have "length ?r = length ch" using mr by (metis size_mset)
    then have "length ch < 2" using True by simp
    then have "ch = [c]" by (cases "take 3 ?p @ xs") (simp_all add: xs(1))
    then have "mset ?r = {#c#}" using mr by simp
    then have "?r = [c]" by (metis mset_single_iff_right mset.simps(1) mset.simps(2) add_mset_eq_single mset_zero_iff)
    then show ?thesis using True by (simp add: eval)
  qed
qed

lemma build_choices_full:
  assumes s1: "is_shuffle shuffle_pool" and s2: "is_shuffle shuffle_choices"
    and big: "3 \<le> length (filter (\<lambda>x. x \<noteq> c) column)"
  shows "length (build_choices shuffle_pool shuffle_choices c column) = 4 \<and>
         mset (filter (\<lambda>x. x \<noteq> c) (build_choices shuffle_pool shuffle_choices c column))
           \<subseteq># mset (filter (\<lambda>x. x \<noteq> c) column) \<and>
         (distinct (filter (\<lambda>x. x \<noteq> c) column) \<longrightarrow>
            distinct (build_choices shuffle_pool shuffle_choices c column))"
proof -
  let ?pool = "filter (\<lambda>x. x \<noteq> c) column"
  let ?p = "shuffle_pool ?pool"
  have mp: "mset ?p = mset ?pool" using s1 by (simp add: is_shuffle_def)
  then have sp: "set ?p = set ?pool" by (rule mset_eq_setD)
  then have cp: "c \<notin> set ?p" by simp
  have "length ?p = length ?pool" using mp by (metis size_mset)
  then have l3: "length (take 3 ?p) = 3" using big by simp
  then have pad: "pad_choices (c # take 3 ?p) ?p = (c # take 3 ?p, ?p)"
    by (intro pad_choices_full) simp
  let ?r = "shuffle_choices (c # take 3 ?p)"
  have mr: "mset ?r = mset (c # take 3 ?p)" using s2 by (simp add: is_shuffle_def)
  have "length ?r = length (c # take 3 ?p)" using mr by (metis size_mset)
  then have lr: "length ?r = 4" using l3 by simp
  have eval: "build_choices shuffle_pool shuffle_choices c column = ?r"
    using lr by (simp add: build_choices_def Let_def pad)
  have ct: "c \<notin> set (take 3 ?p)" using cp by (auto dest: in_set_takeD)
  have "mset (filter (\<lambda>x. x \<noteq> c) ?r) = filter_mset (\<lambda>x. x \<noteq> c) (mset (c # take 3 ?p))"
    using mr by (metis mset_filter)
  also have "\<dots> = mset (filter (\<lambda>x. x \<noteq> c) (take 3 ?p))" by simp
  also have "filter (\<lambda>x. x \<noteq> c) (take 3 ?p) = take 3 ?p"
    using ct by (auto simp: filter_id_conv)
  finally have "mset (filter (\<lambda>x. x \<noteq> c) ?r) = mset (take 3 ?p)" .
  then have sub: "mset (filter (\<lambda>x. x \<noteq> c) ?r) \<subseteq># mset ?pool"
    using mset_take_subset [of 3 ?p] mp by simp
  have dist: "distinct ?pool \<longrightarrow> distinct ?r"
  proof
    assume "distinct ?pool"
    then have "distinct ?p" using mp mset_eq_imp_distinct_iff by blast
    then have "distinct (c # take 3 ?p)" using ct by simp
    then show "distinct ?r" using mr mset_eq_imp_distinct_iff by blast
  qed
  show ?thesis using lr sub dist by (simp only: eval) 
qed

lemma quiz_choices_build:
  "quiz_choices shuffle_pool shuffle_choices qi ws w =
     build_choices shuffle_pool shuffle_choices (correct_answer_of qi w)
       (map (\<lambda>v. correct_answer_of qi v) ws)"
  by (simp add: quiz_choices_def correct_answer_of_def)

text \<open>
  Claim C4, as the code has it. For every shuffle, the choices of a quiz question
  contain the correct answer exactly once, and every other entry is a value of the
  pool (the asked column without the values equal to the correct answer). When the
  pool has at least 3 entries, the result has exactly 4 entries, its three
  alternatives are three different entries of the pool, and they are pairwise distinct
  whenever the values of the pool are. (The pool is not de-duplicated: a value that it
  holds twice can be offered twice.)
\<close>

theorem quiz_choices_contents:
  assumes "is_shuffle shuffle_pool" and "is_shuffle shuffle_choices"
  shows "count_list (quiz_choices shuffle_pool shuffle_choices qi ws w) (correct_answer_of qi w) = 1 \<and>
         set (quiz_choices shuffle_pool shuffle_choices qi ws w)
           \<subseteq> insert (correct_answer_of qi w) (set (spec_pool qi ws w)) \<and>
         (3 \<le> length (spec_pool qi ws w) \<longrightarrow>
            length (quiz_choices shuffle_pool shuffle_choices qi ws w) = 4 \<and>
            mset (filter (\<lambda>x. x \<noteq> correct_answer_of qi w)
                   (quiz_choices shuffle_pool shuffle_choices qi ws w))
              \<subseteq># mset (spec_pool qi ws w) \<and>
            (distinct (spec_pool qi ws w) \<longrightarrow>
               distinct (quiz_choices shuffle_pool shuffle_choices qi ws w)))"
  using build_choices_general [OF assms, of "correct_answer_of qi w" "map (\<lambda>v. correct_answer_of qi v) ws"]
    build_choices_full [OF assms, of "correct_answer_of qi w" "map (\<lambda>v. correct_answer_of qi v) ws"]
  by (simp only: quiz_choices_build spec_pool_def) blast

theorem quiz_choices_contents_witness:
  "is_shuffle (rev :: string list \<Rightarrow> string list) \<and>
   is_shuffle (id :: string list \<Rightarrow> string list) \<and>
   3 \<le> length (spec_pool 1
      [\<lparr>de = ''Hund'', en = ''dog''\<rparr>, \<lparr>de = ''Katze'', en = ''cat''\<rparr>,
       \<lparr>de = ''Vogel'', en = ''bird''\<rparr>, \<lparr>de = ''Fisch'', en = ''fish''\<rparr>,
       \<lparr>de = ''Maus'', en = ''mouse''\<rparr>] \<lparr>de = ''Hund'', en = ''dog''\<rparr>) \<and>
   distinct (spec_pool 1
      [\<lparr>de = ''Hund'', en = ''dog''\<rparr>, \<lparr>de = ''Katze'', en = ''cat''\<rparr>,
       \<lparr>de = ''Vogel'', en = ''bird''\<rparr>, \<lparr>de = ''Fisch'', en = ''fish''\<rparr>,
       \<lparr>de = ''Maus'', en = ''mouse''\<rparr>] \<lparr>de = ''Hund'', en = ''dog''\<rparr>) \<and>
   length (quiz_choices rev id 1
      [\<lparr>de = ''Hund'', en = ''dog''\<rparr>, \<lparr>de = ''Katze'', en = ''cat''\<rparr>,
       \<lparr>de = ''Vogel'', en = ''bird''\<rparr>, \<lparr>de = ''Fisch'', en = ''fish''\<rparr>,
       \<lparr>de = ''Maus'', en = ''mouse''\<rparr>] \<lparr>de = ''Hund'', en = ''dog''\<rparr>) = 4 \<and>
   distinct (quiz_choices rev id 1
      [\<lparr>de = ''Hund'', en = ''dog''\<rparr>, \<lparr>de = ''Katze'', en = ''cat''\<rparr>,
       \<lparr>de = ''Vogel'', en = ''bird''\<rparr>, \<lparr>de = ''Fisch'', en = ''fish''\<rparr>,
       \<lparr>de = ''Maus'', en = ''mouse''\<rparr>] \<lparr>de = ''Hund'', en = ''dog''\<rparr>) \<and>
   count_list (quiz_choices rev id 1
      [\<lparr>de = ''Hund'', en = ''dog''\<rparr>, \<lparr>de = ''Katze'', en = ''cat''\<rparr>,
       \<lparr>de = ''Vogel'', en = ''bird''\<rparr>, \<lparr>de = ''Fisch'', en = ''fish''\<rparr>,
       \<lparr>de = ''Maus'', en = ''mouse''\<rparr>] \<lparr>de = ''Hund'', en = ''dog''\<rparr>) ''Hund'' = 1"
proof -
  let ?ws = "[\<lparr>de = ''Hund'', en = ''dog''\<rparr>, \<lparr>de = ''Katze'', en = ''cat''\<rparr>,
       \<lparr>de = ''Vogel'', en = ''bird''\<rparr>, \<lparr>de = ''Fisch'', en = ''fish''\<rparr>,
       \<lparr>de = ''Maus'', en = ''mouse''\<rparr>]"
  let ?w = "\<lparr>de = ''Hund'', en = ''dog''\<rparr>"
  have s1: "is_shuffle (rev :: string list \<Rightarrow> string list)" by (simp add: is_shuffle_def)
  have s2: "is_shuffle (id :: string list \<Rightarrow> string list)" by (simp add: is_shuffle_def)
  have pool: "spec_pool 1 ?ws ?w = [''Katze'', ''Vogel'', ''Fisch'', ''Maus'']"
    by (simp add: spec_pool_def correct_answer_of_def)
  have c: "correct_answer_of 1 ?w = ''Hund''" by (simp add: correct_answer_of_def)
  have big: "3 \<le> length (spec_pool 1 ?ws ?w)" by (simp only: pool) simp
  have dist: "distinct (spec_pool 1 ?ws ?w)" by (simp only: pool) simp
  note t = quiz_choices_contents [OF s1 s2, of 1 ?ws ?w]
  have 1: "length (quiz_choices rev id 1 ?ws ?w) = 4" using t big by blast
  have 2: "distinct (quiz_choices rev id 1 ?ws ?w)" using t big dist by blast
  have "count_list (quiz_choices rev id 1 ?ws ?w) (correct_answer_of 1 ?w) = 1" using t by blast
  then have 3: "count_list (quiz_choices rev id 1 ?ws ?w) ''Hund'' = 1" by (simp only: c)
  show ?thesis by (intro conjI s1 s2 big dist 1 2 3)
qed

text \<open>
  Claim C4 as the specification states it (the alternatives are pairwise distinct)
  fails: with three German words that share the English text "you", the identity
  shuffle offers "you" three times.
\<close>

theorem quiz_choices_distinct_counterexample:
  "is_shuffle (id :: string list \<Rightarrow> string list) \<and>
   quiz_choices id id 2
     [\<lparr>de = ''sie'', en = ''she''\<rparr>, \<lparr>de = ''du'', en = ''you''\<rparr>,
      \<lparr>de = ''Sie'', en = ''you''\<rparr>, \<lparr>de = ''ihr'', en = ''you''\<rparr>]
     \<lparr>de = ''sie'', en = ''she''\<rparr> = [''she'', ''you'', ''you'', ''you''] \<and>
   \<not> distinct [''you'', ''you'', ''you'']"
proof -
  have "is_shuffle (id :: string list \<Rightarrow> string list)" by (simp add: is_shuffle_def)
  moreover have "quiz_choices id id 2
     [\<lparr>de = ''sie'', en = ''she''\<rparr>, \<lparr>de = ''du'', en = ''you''\<rparr>,
      \<lparr>de = ''Sie'', en = ''you''\<rparr>, \<lparr>de = ''ihr'', en = ''you''\<rparr>]
     \<lparr>de = ''sie'', en = ''she''\<rparr> = [''she'', ''you'', ''you'', ''you'']"
    by code_simp
  ultimately show ?thesis by simp
qed

section \<open>Properties of the quiz\<close>

lemma get_mastery_stored: "get_mastery p category w = mastery (stored_entry p (get_word_key category w))"
  by (simp add: get_mastery_def stored_entry_def new_entry_def split: option.splits)

lemma get_mastery_record_answer:
  "get_mastery (record_answer p category w b) category w =
     (if b then min (get_mastery p category w + 1) 5 else max (get_mastery p category w - 1) 0)"
proof -
  let ?e = "stored_entry p (get_word_key category w)"
  have "map_of (words (record_answer p category w b)) (get_word_key category w) =
      Some (if b then ?e\<lparr>correct := correct ?e + 1, mastery := min (mastery ?e + 1) 5\<rparr>
            else ?e\<lparr>wrong := wrong ?e + 1, mastery := max (mastery ?e - 1) 0\<rparr>)"
    by (simp add: map_of_record_answer Let_def)
  then have "get_mastery (record_answer p category w b) category w =
      (if b then min (mastery ?e + 1) 5 else max (mastery ?e - 1) 0)"
    by (simp add: get_mastery_def)
  then show ?thesis by (simp only: get_mastery_stored)
qed

lemma record_answer_other_fields:
  "xp (record_answer p category w b) = xp p"
  "streak (record_answer p category w b) = streak p"
  "last_played (record_answer p category w b) = last_played p"
  "best_speed (record_answer p category w b) = best_speed p"
  by (simp_all add: record_answer_def Let_def split: prod.splits)

lemma quiz_question_unfold:
  "quiz_question env category ws qi w (score, p, evs) =
     (let choices = quiz_choices (shuffled_pool env qi) (shuffled_choices env qi) qi ws w;
          hit = (choices ! (entered env qi choices - 1) = correct_answer_of qi w);
          p' = (if hit then (record_answer p category (de w) True)\<lparr>xp := xp p + 10\<rparr>
                else record_answer p category (de w) False)
      in (if hit then score + 1 else score, p',
          evs @ [Question (prompt_text_of qi w) choices, Save p']))"
  by (simp add: quiz_question_def Let_def save_progress_def record_answer_other_fields)

lemma quiz_question_counts:
  assumes "quiz_question env category ws qi w (score, p, evs) = (score', p', evs')"
  shows "length (filter is_save evs') = length (filter is_save evs) + 1"
    and "length (filter is_question evs') = length (filter is_question evs) + 1"
    and "xp p' - 10 * score' = xp p - 10 * score"
    and "best_speed p' = best_speed p"
  using assms
  by (auto simp: quiz_question_unfold Let_def is_save_def is_question_def
      record_answer_other_fields split: if_splits)

lemma quiz_questions_counts:
  assumes "quiz_questions env category ws qi questions (score, p, evs) = (score', p', evs')"
  shows "length (filter is_save evs') = length (filter is_save evs) + length questions \<and>
         length (filter is_question evs') = length (filter is_question evs) + length questions \<and>
         xp p' - 10 * score' = xp p - 10 * score"
  using assms
proof (induction questions arbitrary: qi score p evs)
  case Nil
  then show ?case by simp
next
  case (Cons w questions)
  obtain s1 p1 e1 where step: "quiz_question env category ws qi w (score, p, evs) = (s1, p1, e1)"
    by (cases "quiz_question env category ws qi w (score, p, evs)")
  have rest: "quiz_questions env category ws (Suc qi) questions (s1, p1, e1) = (score', p', evs')"
    using Cons.prems step by simp
  show ?case
    using Cons.IH [OF rest] quiz_question_counts [OF step] by simp
qed

lemma quiz_mode_run:
  assumes len: "2 \<le> length ws" and ok: "mastery_ok p"
    and dr: "\<forall>k. drawn env k < length ws" and sh: "is_shuffle (shuffled_rest env)"
  shows "\<exists>questions score p' evs'.
           length questions = min 10 (length ws) \<and>
           quiz_questions env category ws 1 questions (0, p, evs) = (score, p', evs') \<and>
           quiz_mode env p category ws evs =
             Inr (p', evs' @ [Result_panel score (min 10 (int (length ws))), Press_enter])"
proof -
  have ne: "ws \<noteq> []" using len by auto
  have n0: "0 \<le> min 10 (int (length ws))" by simp
  obtain r where r: "weighted_sample_indexed (drawn env) (shuffled_rest env) p category ws
        (min 10 (int (length ws))) = Inr r"
      "length r = min (nat (min 10 (int (length ws)))) (length ws)"
    using weighted_sample_indexed_props [OF ne ok n0 dr sh, of category] by blast
  have lr: "length (map snd r) = min 10 (length ws)" using r(2) by simp
  have ws: "weighted_sample (drawn env) (shuffled_rest env) p category ws
        (min 10 (int (length ws))) = Inr (map snd r)"
    by (simp add: weighted_sample_def r(1))
  obtain score p' evs' where run:
    "quiz_questions env category ws 1 (map snd r) (0, p, evs) = (score, p', evs')"
    by (cases "quiz_questions env category ws 1 (map snd r) (0, p, evs)")
  have "quiz_mode env p category ws evs =
      Inr (p', evs' @ [Result_panel score (min 10 (int (length ws))), Press_enter])"
    using len run [unfolded One_nat_def]
    by (simp add: quiz_mode_def Let_def ws press_enter_to_continue_def
        del: quiz_questions.simps)
  then show ?thesis using lr run by blast
qed

text \<open>
  Claim C6. One question of Quiz mode appends to the log the question and exactly one
  save of the changed document, whether the answer is right or wrong. When the selected
  choice is the correct answer, \<open>xp\<close> grows by exactly 10, the score by 1, and the
  mastery of the word becomes \<open>min (m + 1) 5\<close>, which is 1 for a word with mastery 0.
  A session on at least two words returns, and has asked and saved exactly
  \<open>min 10 (length words)\<close> times, with \<open>xp\<close> grown by 10 times the final score.
\<close>

theorem quiz_scoring:
  "(let choices = quiz_choices (shuffled_pool env qi) (shuffled_choices env qi) qi ws w;
        st' = quiz_question env category ws qi w (score, p, evs);
        score' = fst st'; p' = fst (snd st'); evs' = snd (snd st')
    in evs' = evs @ [Question (prompt_text_of qi w) choices, Save p'] \<and>
       (choices ! (entered env qi choices - 1) = correct_answer_of qi w \<longrightarrow>
          score' = score + 1 \<and> xp p' = xp p + 10 \<and>
          get_mastery p' category (de w) = min (get_mastery p category (de w) + 1) 5 \<and>
          (get_mastery p category (de w) = 0 \<longrightarrow> get_mastery p' category (de w) = 1)) \<and>
       (choices ! (entered env qi choices - 1) \<noteq> correct_answer_of qi w \<longrightarrow>
          score' = score \<and> xp p' = xp p)) \<and>
   (2 \<le> length ws \<and> mastery_ok p \<and> (\<forall>k. drawn env k < length ws) \<and>
      is_shuffle (shuffled_rest env) \<longrightarrow>
    (\<exists>final_score p' evs'.
       quiz_mode env p category ws evs =
         Inr (p', evs' @ [Result_panel final_score (min 10 (int (length ws))), Press_enter]) \<and>
       length (filter is_save evs') = length (filter is_save evs) + min 10 (length ws) \<and>
       length (filter is_question evs') = length (filter is_question evs) + min 10 (length ws) \<and>
       xp p' = xp p + 10 * final_score))"
proof -
  have step: "(let choices = quiz_choices (shuffled_pool env qi) (shuffled_choices env qi) qi ws w;
        st' = quiz_question env category ws qi w (score, p, evs);
        score' = fst st'; p' = fst (snd st'); evs' = snd (snd st')
    in evs' = evs @ [Question (prompt_text_of qi w) choices, Save p'] \<and>
       (choices ! (entered env qi choices - 1) = correct_answer_of qi w \<longrightarrow>
          score' = score + 1 \<and> xp p' = xp p + 10 \<and>
          get_mastery p' category (de w) = min (get_mastery p category (de w) + 1) 5 \<and>
          (get_mastery p category (de w) = 0 \<longrightarrow> get_mastery p' category (de w) = 1)) \<and>
       (choices ! (entered env qi choices - 1) \<noteq> correct_answer_of qi w \<longrightarrow>
          score' = score \<and> xp p' = xp p))"
    using get_mastery_record_answer [of p category "de w" True]
    by (simp add: quiz_question_unfold Let_def record_answer_other_fields get_mastery_def)
  have session: "2 \<le> length ws \<and> mastery_ok p \<and> (\<forall>k. drawn env k < length ws) \<and>
      is_shuffle (shuffled_rest env) \<longrightarrow>
    (\<exists>final_score p' evs'.
       quiz_mode env p category ws evs =
         Inr (p', evs' @ [Result_panel final_score (min 10 (int (length ws))), Press_enter]) \<and>
       length (filter is_save evs') = length (filter is_save evs) + min 10 (length ws) \<and>
       length (filter is_question evs') = length (filter is_question evs) + min 10 (length ws) \<and>
       xp p' = xp p + 10 * final_score)"
  proof (intro impI, elim conjE)
    assume a: "2 \<le> length ws" "mastery_ok p" "\<forall>k. drawn env k < length ws"
      "is_shuffle (shuffled_rest env)"
    obtain questions final_score p' evs' where q:
      "length questions = min 10 (length ws)"
      "quiz_questions env category ws 1 questions (0, p, evs) = (final_score, p', evs')"
      "quiz_mode env p category ws evs =
         Inr (p', evs' @ [Result_panel final_score (min 10 (int (length ws))), Press_enter])"
      using quiz_mode_run [OF a, of category evs] by blast
    have "length (filter is_save evs') = length (filter is_save evs) + min 10 (length ws) \<and>
       length (filter is_question evs') = length (filter is_question evs) + min 10 (length ws) \<and>
       xp p' = xp p + 10 * final_score"
      using quiz_questions_counts [OF q(2)] q(1) by simp
    then show "\<exists>final_score p' evs'.
       quiz_mode env p category ws evs =
         Inr (p', evs' @ [Result_panel final_score (min 10 (int (length ws))), Press_enter]) \<and>
       length (filter is_save evs') = length (filter is_save evs) + min 10 (length ws) \<and>
       length (filter is_question evs') = length (filter is_question evs) + min 10 (length ws) \<and>
       xp p' = xp p + 10 * final_score"
      using q(3) by blast
  qed
  show ?thesis using step session by (rule conjI)
qed

theorem quiz_scoring_witness:
  "quiz_choices id id 1 [\<lparr>de = ''Hund'', en = ''dog''\<rparr>, \<lparr>de = ''Katze'', en = ''cat''\<rparr>]
      \<lparr>de = ''Hund'', en = ''dog''\<rparr> ! (1 - 1) = correct_answer_of 1 \<lparr>de = ''Hund'', en = ''dog''\<rparr> \<and>
   quiz_choices id id 1 [\<lparr>de = ''Hund'', en = ''dog''\<rparr>, \<lparr>de = ''Katze'', en = ''cat''\<rparr>]
      \<lparr>de = ''Hund'', en = ''dog''\<rparr> ! (2 - 1) \<noteq> correct_answer_of 1 \<lparr>de = ''Hund'', en = ''dog''\<rparr> \<and>
   get_mastery fresh_progress ''nouns'' ''Hund'' = 0 \<and>
   xp (fst (snd (quiz_question
     \<lparr>drawn = (\<lambda>k. 0), shuffled_rest = rev, shuffled_pool = (\<lambda>qi. id),
      shuffled_choices = (\<lambda>qi. id), entered = (\<lambda>qi cs. 1)\<rparr>
     ''nouns'' [\<lparr>de = ''Hund'', en = ''dog''\<rparr>, \<lparr>de = ''Katze'', en = ''cat''\<rparr>] 1
     \<lparr>de = ''Hund'', en = ''dog''\<rparr> (0, fresh_progress, [])))) = 10 \<and>
   get_mastery (fst (snd (quiz_question
     \<lparr>drawn = (\<lambda>k. 0), shuffled_rest = rev, shuffled_pool = (\<lambda>qi. id),
      shuffled_choices = (\<lambda>qi. id), entered = (\<lambda>qi cs. 1)\<rparr>
     ''nouns'' [\<lparr>de = ''Hund'', en = ''dog''\<rparr>, \<lparr>de = ''Katze'', en = ''cat''\<rparr>] 1
     \<lparr>de = ''Hund'', en = ''dog''\<rparr> (0, fresh_progress, [])))) ''nouns'' ''Hund'' = 1 \<and>
   xp (fst (snd (quiz_question
     \<lparr>drawn = (\<lambda>k. 0), shuffled_rest = rev, shuffled_pool = (\<lambda>qi. id),
      shuffled_choices = (\<lambda>qi. id), entered = (\<lambda>qi cs. 2)\<rparr>
     ''nouns'' [\<lparr>de = ''Hund'', en = ''dog''\<rparr>, \<lparr>de = ''Katze'', en = ''cat''\<rparr>] 1
     \<lparr>de = ''Hund'', en = ''dog''\<rparr> (0, fresh_progress, [])))) = 0 \<and>
   2 \<le> length [\<lparr>de = ''Hund'', en = ''dog''\<rparr>, \<lparr>de = ''Katze'', en = ''cat''\<rparr>] \<and>
   mastery_ok fresh_progress \<and>
   (\<forall>k::nat. (0::nat) < length [\<lparr>de = ''Hund'', en = ''dog''\<rparr>, \<lparr>de = ''Katze'', en = ''cat''\<rparr>]) \<and>
   is_shuffle (rev :: (nat \<times> word) list \<Rightarrow> (nat \<times> word) list) \<and>
   (\<exists>final_score p' evs'.
      quiz_mode
        \<lparr>drawn = (\<lambda>k. 0), shuffled_rest = rev, shuffled_pool = (\<lambda>qi. id),
         shuffled_choices = (\<lambda>qi. id), entered = (\<lambda>qi cs. 1)\<rparr>
        fresh_progress ''nouns'' [\<lparr>de = ''Hund'', en = ''dog''\<rparr>, \<lparr>de = ''Katze'', en = ''cat''\<rparr>] [] =
        Inr (p', evs' @ [Result_panel final_score 2, Press_enter]) \<and>
      length (filter is_save evs') = 2 \<and> length (filter is_question evs') = 2 \<and>
      xp p' = 10 * final_score)"
proof -
  let ?ws = "[\<lparr>de = ''Hund'', en = ''dog''\<rparr>, \<lparr>de = ''Katze'', en = ''cat''\<rparr>]"
  let ?w = "\<lparr>de = ''Hund'', en = ''dog''\<rparr>"
  let ?E = "\<lparr>drawn = (\<lambda>k. 0), shuffled_rest = rev, shuffled_pool = (\<lambda>qi. id),
      shuffled_choices = (\<lambda>qi. id), entered = (\<lambda>qi cs. 1)\<rparr>"
  let ?F = "\<lparr>drawn = (\<lambda>k. 0), shuffled_rest = rev, shuffled_pool = (\<lambda>qi. id),
      shuffled_choices = (\<lambda>qi. id), entered = (\<lambda>qi cs. 2)\<rparr>"
  have ch: "quiz_choices id id 1 ?ws ?w = [''Hund'', ''Katze'', ''Katze'']" by code_simp
  have c: "correct_answer_of 1 ?w = ''Hund''" by (simp add: correct_answer_of_def)
  have hit: "quiz_choices id id 1 ?ws ?w ! (1 - 1) = correct_answer_of 1 ?w"
    by (simp only: ch c) simp
  have miss: "quiz_choices id id 1 ?ws ?w ! (2 - 1) \<noteq> correct_answer_of 1 ?w"
    by (simp only: ch c) simp
  have m0: "get_mastery fresh_progress ''nouns'' ''Hund'' = 0"
    by (simp add: get_mastery_def fresh_progress_def)
  have x0: "xp fresh_progress = 0" by (simp add: fresh_progress_def)
  have len: "2 \<le> length ?ws" by simp
  have ok: "mastery_ok fresh_progress" by (simp add: mastery_ok_def fresh_progress_def)
  have dr: "\<forall>k::nat. (0::nat) < length ?ws" by simp
  have sh: "is_shuffle (rev :: (nat \<times> word) list \<Rightarrow> (nat \<times> word) list)"
    by (simp add: is_shuffle_def)
  have dw: "de ?w = ''Hund''" by simp
  have ten: "min 10 (int (length ?ws)) = 2" "min 10 (length ?ws) = 2" by simp_all
  note t = quiz_scoring [where env = ?E and qi = 1 and ws = ?ws and w = ?w
      and category = "''nouns''" and score = 0 and p = fresh_progress and evs = "[]",
      unfolded Let_def quiz_env.select_convs dw ten x0]
  note u = quiz_scoring [where env = ?F and qi = 1 and ws = ?ws and w = ?w
      and category = "''nouns''" and score = 0 and p = fresh_progress and evs = "[]",
      unfolded Let_def quiz_env.select_convs dw ten x0]
  have "xp (fst (snd (quiz_question ?E ''nouns'' ?ws 1 ?w (0, fresh_progress, [])))) = 0 + 10 \<and>
      get_mastery (fst (snd (quiz_question ?E ''nouns'' ?ws 1 ?w (0, fresh_progress, []))))
        ''nouns'' ''Hund'' = 1"
    using t hit m0 by blast
  then have 1: "xp (fst (snd (quiz_question ?E ''nouns'' ?ws 1 ?w (0, fresh_progress, [])))) = 10 \<and>
      get_mastery (fst (snd (quiz_question ?E ''nouns'' ?ws 1 ?w (0, fresh_progress, []))))
        ''nouns'' ''Hund'' = 1"
    by simp
  have 2: "xp (fst (snd (quiz_question ?F ''nouns'' ?ws 1 ?w (0, fresh_progress, [])))) = 0"
    using u miss by blast
  have "\<exists>final_score p' evs'.
      quiz_mode ?E fresh_progress ''nouns'' ?ws [] =
        Inr (p', evs' @ [Result_panel final_score 2, Press_enter]) \<and>
      length (filter is_save evs') = length (filter is_save []) + 2 \<and>
      length (filter is_question evs') = length (filter is_question []) + 2 \<and>
      xp p' = 0 + 10 * final_score"
    using t len ok dr sh by blast
  then have 3: "\<exists>final_score p' evs'.
      quiz_mode ?E fresh_progress ''nouns'' ?ws [] =
        Inr (p', evs' @ [Result_panel final_score 2, Press_enter]) \<and>
      length (filter is_save evs') = 2 \<and> length (filter is_question evs') = 2 \<and>
      xp p' = 10 * final_score"
    by (simp add: numeral_2_eq_2)
  show ?thesis
    by (intro conjI hit miss m0 1 [THEN conjunct1] 1 [THEN conjunct2] 2 len ok dr sh 3)
qed

section \<open>Properties of the speed round\<close>

lemma best_kept_stop: "best_kept (r, score, n, p, evs) (Inr (score, n', p, evs'))"
  by (simp add: best_kept_def)

lemma best_kept_err: "best_kept st (Inl e)"
  by (simp add: best_kept_def)

lemma best_kept_step:
  "best_kept (r', score', n', p', evs') y \<Longrightarrow> best_speed p' = best_speed p \<Longrightarrow> score \<le> score'
   \<Longrightarrow> best_kept (r, score, n, p, evs) y"
  by (auto simp: best_kept_def split: sum.splits)

lemma speed_loop_best:
  assumes "speed_loop env category ws start_time st = Some y"
  shows "best_kept st y"
proof (rule speed_loop.raw_induct [where P = "\<lambda>env category ws start_time st y. best_kept st y",
      OF _ assms], goal_cases)
  case (1 f env category ws start_time st y)
  obtain r score n p evs where st: "st = (r, score, n, p, evs)"
    by (cases st) auto
  show ?case
    using 1(2) unfolding st
    by (auto simp: Let_def record_answer_other_fields best_kept_stop best_kept_err
        split: if_splits prod.splits dest!: 1(1) elim!: best_kept_step)
qed

lemma speed_finish_best:
  "fst (speed_finish score n p evs) = (if best_speed p < score then p\<lparr>best_speed := score\<rparr> else p)"
  by (simp add: speed_finish_def Let_def)

lemma speed_round_end:
  assumes len: "2 \<le> length ws"
    and run: "speed_round env p category ws evs = Some (Inr (p', evs'))"
  shows "\<exists>score n q evs0. best_speed q = best_speed p \<and> 0 \<le> score \<and>
           speed_finish score n q evs0 = (p', evs')"
proof -
  let ?evs = "press_enter_to_continue
      (evs @ [Print ''Answer as many multiple choice questions as you can in 60 seconds!''])"
  have eq: "(case speed_loop env category ws (clock env 0) (1, 0, 0, p, ?evs) of
                None \<Rightarrow> None
              | Some (Inl e) \<Rightarrow> Some (Inl e)
              | Some (Inr (score, n, q, evs0)) \<Rightarrow> Some (Inr (speed_finish score n q evs0)))
            = Some (Inr (p', evs'))"
    using len run by (simp add: speed_round_def Let_def)
  then obtain score n q evs0 where
    loop: "speed_loop env category ws (clock env 0) (1, 0, 0, p, ?evs) = Some (Inr (score, n, q, evs0))"
    and fin: "speed_finish score n q evs0 = (p', evs')"
    by (auto split: option.splits sum.splits prod.splits)
  have "best_speed q = best_speed p \<and> 0 \<le> score"
    using speed_loop_best [OF loop] by (simp add: best_kept_def)
  then show ?thesis using fin by blast
qed

lemma speed_round_best_le:
  assumes "speed_round env p category ws evs = Some (Inr (p', evs'))"
  shows "best_speed p \<le> best_speed p'"
proof (cases "2 \<le> length ws")
  case True
  obtain score n q evs0 where q: "best_speed q = best_speed p"
    "speed_finish score n q evs0 = (p', evs')"
    using speed_round_end [OF True assms] by blast
  have "p' = fst (speed_finish score n q evs0)" using q(2) by simp
  then show ?thesis using q(1) by (simp add: speed_finish_best)
next
  case False
  then show ?thesis using assms by (simp add: speed_round_def)
qed

lemma speed_rounds_best_le:
  "speed_rounds rounds p evs = Some (Inr (p', evs')) \<Longrightarrow> best_speed p \<le> best_speed p'"
proof (induction rounds arbitrary: p evs)
  case Nil
  then show ?case by simp
next
  case (Cons x rounds)
  obtain env category ws where x: "x = (env, category, ws)" by (cases x)
  from Cons.prems obtain p1 evs1 where
    first: "speed_round env p category ws evs = Some (Inr (p1, evs1))"
    and rest: "speed_rounds rounds p1 evs1 = Some (Inr (p', evs'))"
    by (auto simp: x split: option.splits sum.splits prod.splits)
  have "best_speed p \<le> best_speed p1" using first by (rule speed_round_best_le)
  moreover have "best_speed p1 \<le> best_speed p'" using rest by (rule Cons.IH)
  ultimately show ?case by simp
qed

text \<open>
  Claim C7. The end of a speed round sets \<open>best_speed\<close> to the score exactly when the
  score is greater than the stored best, and changes nothing else of the document. A
  round on at least two words that returns ends so, on a document that still has the
  best it started with; hence no round and no sequence of rounds lowers \<open>best_speed\<close>,
  and a score of 0 leaves a positive best as it is.
\<close>

theorem best_speed_only_increases:
  "fst (speed_finish score n p evs) =
     (if best_speed p < score then p\<lparr>best_speed := score\<rparr> else p) \<and>
   (0 < best_speed p \<longrightarrow> fst (speed_finish 0 n p evs) = p) \<and>
   (2 \<le> length ws \<and> speed_round env p category ws evs = Some (Inr (p', evs')) \<longrightarrow>
      (\<exists>final_score n' q evs0. best_speed q = best_speed p \<and> 0 \<le> final_score \<and>
         speed_finish final_score n' q evs0 = (p', evs'))) \<and>
   (speed_round env p category ws evs = Some (Inr (p', evs')) \<longrightarrow>
      best_speed p \<le> best_speed p') \<and>
   (speed_rounds rounds p evs = Some (Inr (p', evs')) \<longrightarrow> best_speed p \<le> best_speed p')"
  using speed_round_end [of ws env p category evs p' evs']
    speed_round_best_le [of env p category ws evs p' evs']
    speed_rounds_best_le [of rounds p evs p' evs']
  by (simp add: speed_finish_best)

theorem best_speed_only_increases_witness:
  "(0::int) < best_speed (fresh_progress\<lparr>best_speed := 3\<rparr>) \<and>
   fst (speed_finish 0 0 (fresh_progress\<lparr>best_speed := 3\<rparr>) []) = fresh_progress\<lparr>best_speed := 3\<rparr> \<and>
   2 \<le> length [\<lparr>de = ''Hund'', en = ''dog''\<rparr>, \<lparr>de = ''Katze'', en = ''cat''\<rparr>] \<and>
   speed_round \<lparr>clock = (\<lambda>k. real k * 19), picked = (\<lambda>k. 0), asks_german = (\<lambda>k. True),
      speed_shuffled_pool = (\<lambda>k. id), speed_shuffled_choices = (\<lambda>k. id),
      speed_entered = (\<lambda>k cs. Some 1)\<rparr> fresh_progress ''nouns'' [\<lparr>de = ''Hund'', en = ''dog''\<rparr>, \<lparr>de = ''Katze'', en = ''cat''\<rparr>] [] = Some (Inr (\<lparr>xp = 5, streak = 0, last_played = [], best_speed = 1,
      words = [(''nouns:Hund'', \<lparr>mastery = 1, correct = 1, wrong = 0\<rparr>)]\<rparr>, [Print ''Answer as many multiple choice questions as you can in 60 seconds!'', Press_enter,
      Question ''dog'' [''Hund'', ''Katze''], Save \<lparr>xp = 5, streak = 0, last_played = [], best_speed = 0,
      words = [(''nouns:Hund'', \<lparr>mastery = 1, correct = 1, wrong = 0\<rparr>)]\<rparr>,
      Save \<lparr>xp = 5, streak = 0, last_played = [], best_speed = 1,
      words = [(''nouns:Hund'', \<lparr>mastery = 1, correct = 1, wrong = 0\<rparr>)]\<rparr>, Result_panel 1 1, Press_enter])) \<and>
   speed_rounds [(\<lparr>clock = (\<lambda>k. real k * 19), picked = (\<lambda>k. 0), asks_german = (\<lambda>k. True),
      speed_shuffled_pool = (\<lambda>k. id), speed_shuffled_choices = (\<lambda>k. id),
      speed_entered = (\<lambda>k cs. Some 1)\<rparr>, ''nouns'', [\<lparr>de = ''Hund'', en = ''dog''\<rparr>, \<lparr>de = ''Katze'', en = ''cat''\<rparr>])] fresh_progress [] = Some (Inr (\<lparr>xp = 5, streak = 0, last_played = [], best_speed = 1,
      words = [(''nouns:Hund'', \<lparr>mastery = 1, correct = 1, wrong = 0\<rparr>)]\<rparr>, [Print ''Answer as many multiple choice questions as you can in 60 seconds!'', Press_enter,
      Question ''dog'' [''Hund'', ''Katze''], Save \<lparr>xp = 5, streak = 0, last_played = [], best_speed = 0,
      words = [(''nouns:Hund'', \<lparr>mastery = 1, correct = 1, wrong = 0\<rparr>)]\<rparr>,
      Save \<lparr>xp = 5, streak = 0, last_played = [], best_speed = 1,
      words = [(''nouns:Hund'', \<lparr>mastery = 1, correct = 1, wrong = 0\<rparr>)]\<rparr>, Result_panel 1 1, Press_enter])) \<and>
   best_speed fresh_progress \<le> best_speed \<lparr>xp = 5, streak = 0, last_played = [], best_speed = 1,
      words = [(''nouns:Hund'', \<lparr>mastery = 1, correct = 1, wrong = 0\<rparr>)]\<rparr> \<and>
   (\<exists>final_score n' q evs0. best_speed q = best_speed fresh_progress \<and> 0 \<le> final_score \<and>
      speed_finish final_score n' q evs0 = (\<lparr>xp = 5, streak = 0, last_played = [], best_speed = 1,
      words = [(''nouns:Hund'', \<lparr>mastery = 1, correct = 1, wrong = 0\<rparr>)]\<rparr>, [Print ''Answer as many multiple choice questions as you can in 60 seconds!'', Press_enter,
      Question ''dog'' [''Hund'', ''Katze''], Save \<lparr>xp = 5, streak = 0, last_played = [], best_speed = 0,
      words = [(''nouns:Hund'', \<lparr>mastery = 1, correct = 1, wrong = 0\<rparr>)]\<rparr>,
      Save \<lparr>xp = 5, streak = 0, last_played = [], best_speed = 1,
      words = [(''nouns:Hund'', \<lparr>mastery = 1, correct = 1, wrong = 0\<rparr>)]\<rparr>, Result_panel 1 1, Press_enter]))"
proof -
  let ?E = "\<lparr>clock = (\<lambda>k. real k * 19), picked = (\<lambda>k. 0), asks_german = (\<lambda>k. True),
      speed_shuffled_pool = (\<lambda>k. id), speed_shuffled_choices = (\<lambda>k. id),
      speed_entered = (\<lambda>k cs. Some 1)\<rparr>"
  let ?ws = "[\<lparr>de = ''Hund'', en = ''dog''\<rparr>, \<lparr>de = ''Katze'', en = ''cat''\<rparr>]"
  let ?p1 = "\<lparr>xp = 5, streak = 0, last_played = [], best_speed = 1,
      words = [(''nouns:Hund'', \<lparr>mastery = 1, correct = 1, wrong = 0\<rparr>)]\<rparr>"
  let ?evs = "[Print ''Answer as many multiple choice questions as you can in 60 seconds!'', Press_enter,
      Question ''dog'' [''Hund'', ''Katze''], Save \<lparr>xp = 5, streak = 0, last_played = [], best_speed = 0,
      words = [(''nouns:Hund'', \<lparr>mastery = 1, correct = 1, wrong = 0\<rparr>)]\<rparr>,
      Save \<lparr>xp = 5, streak = 0, last_played = [], best_speed = 1,
      words = [(''nouns:Hund'', \<lparr>mastery = 1, correct = 1, wrong = 0\<rparr>)]\<rparr>, Result_panel 1 1, Press_enter]"
  have pos: "(0::int) < best_speed (fresh_progress\<lparr>best_speed := 3\<rparr>)" by simp
  have len: "2 \<le> length ?ws" by simp
  have run: "speed_round ?E fresh_progress ''nouns'' ?ws [] = Some (Inr (?p1, ?evs))"
    by code_simp
  have runs: "speed_rounds [(?E, ''nouns'', ?ws)] fresh_progress [] = Some (Inr (?p1, ?evs))"
    by (simp add: run)
  note a = best_speed_only_increases [where score = 0 and n = 0
      and p = "fresh_progress\<lparr>best_speed := 3\<rparr>" and evs = "[]"]
  note b = best_speed_only_increases [where p = fresh_progress and evs = "[]" and env = ?E
      and category = "''nouns''" and ws = ?ws and p' = ?p1 and evs' = ?evs
      and rounds = "[(?E, ''nouns'', ?ws)]"]
  have 1: "fst (speed_finish 0 0 (fresh_progress\<lparr>best_speed := 3\<rparr>) []) = fresh_progress\<lparr>best_speed := 3\<rparr>"
    using a pos by blast
  have 2: "best_speed fresh_progress \<le> best_speed ?p1"
    using b runs by blast
  have 3: "\<exists>final_score n' q evs0. best_speed q = best_speed fresh_progress \<and> 0 \<le> final_score \<and>
      speed_finish final_score n' q evs0 = (?p1, ?evs)"
    using b len run by blast
  show ?thesis
    by (intro conjI pos 1 len run runs 2 3)
qed

section \<open>Word lists that are too short\<close>

text \<open>
  Claim C8. On a word list with fewer than 2 entries, Quiz mode and Speed mode return
  at once: the progress document is the one they were given, and the log has gained
  only the "not enough words" message and the wait for Enter, so no question was asked
  and nothing was saved.
\<close>

theorem short_list_declined:
  assumes "length ws < 2"
  shows "quiz_mode env p category ws evs =
           Inr (p, evs @ [Print ''[red]Not enough words for a quiz in this category.[/red]'',
                          Press_enter]) \<and>
         speed_round senv p category ws evs =
           Some (Inr (p, evs @ [Print ''[red]Not enough words for a speed round.[/red]'',
                                Press_enter])) \<and>
         filter is_question
           (evs @ [Print ''[red]Not enough words for a quiz in this category.[/red]'', Press_enter])
           = filter is_question evs \<and>
         filter is_save
           (evs @ [Print ''[red]Not enough words for a quiz in this category.[/red]'', Press_enter])
           = filter is_save evs \<and>
         filter is_question
           (evs @ [Print ''[red]Not enough words for a speed round.[/red]'', Press_enter])
           = filter is_question evs \<and>
         filter is_save
           (evs @ [Print ''[red]Not enough words for a speed round.[/red]'', Press_enter])
           = filter is_save evs"
  using assms
  by (simp add: quiz_mode_def speed_round_def press_enter_to_continue_def is_question_def
      is_save_def)

theorem short_list_declined_witness:
  "length [\<lparr>de = ''Hund'', en = ''dog''\<rparr>] < 2 \<and>
   quiz_mode
     \<lparr>drawn = (\<lambda>k. 0), shuffled_rest = rev, shuffled_pool = (\<lambda>qi. id),
      shuffled_choices = (\<lambda>qi. id), entered = (\<lambda>qi cs. 1)\<rparr>
     (fresh_progress\<lparr>xp := 40, best_speed := 3\<rparr>) ''nouns'' [\<lparr>de = ''Hund'', en = ''dog''\<rparr>] [] =
     Inr (fresh_progress\<lparr>xp := 40, best_speed := 3\<rparr>,
          [Print ''[red]Not enough words for a quiz in this category.[/red]'', Press_enter]) \<and>
   speed_round
     \<lparr>clock = (\<lambda>k. real k), picked = (\<lambda>k. 0), asks_german = (\<lambda>k. True),
      speed_shuffled_pool = (\<lambda>k. id), speed_shuffled_choices = (\<lambda>k. id),
      speed_entered = (\<lambda>k cs. Some 1)\<rparr>
     (fresh_progress\<lparr>xp := 40, best_speed := 3\<rparr>) ''nouns'' [\<lparr>de = ''Hund'', en = ''dog''\<rparr>] [] =
     Some (Inr (fresh_progress\<lparr>xp := 40, best_speed := 3\<rparr>,
          [Print ''[red]Not enough words for a speed round.[/red]'', Press_enter]))"
proof -
  have short: "length [\<lparr>de = ''Hund'', en = ''dog''\<rparr>] < 2" by simp
  note t = short_list_declined [OF short, where evs = "[]"
      and p = "fresh_progress\<lparr>xp := 40, best_speed := 3\<rparr>" and category = "''nouns''"
      and env = "\<lparr>drawn = (\<lambda>k. 0), shuffled_rest = rev, shuffled_pool = (\<lambda>qi. id),
      shuffled_choices = (\<lambda>qi. id), entered = (\<lambda>qi cs. 1)\<rparr>"
      and senv = "\<lparr>clock = (\<lambda>k. real k), picked = (\<lambda>k. 0), asks_german = (\<lambda>k. True),
      speed_shuffled_pool = (\<lambda>k. id), speed_shuffled_choices = (\<lambda>k. id),
      speed_entered = (\<lambda>k cs. Some 1)\<rparr>"]
  show ?thesis
    using short t by simp
qed

end
